theory Spec2Isabelle
  imports Main "HOL-Library.Word"
begin

section \<open>Data model of package kcl\<close>

text \<open>
  A Go \<^verbatim>\<open>error\<close> value that is not nil is an \<open>Error\<close> with its message; a result
  of Go type \<^verbatim>\<open>error\<close> is an \<open>error option\<close>, with \<open>None\<close> for nil. A pointer to a
  string (\<^verbatim>\<open>*string\<close>) is a \<open>string option\<close>, with \<open>None\<close> for the nil pointer.
\<close>

datatype error = Error string

text \<open>\<^verbatim>\<open>aws.StringValue\<close>: the string a pointer refers to, the empty string for nil.\<close>

definition StringValue :: "string option \<Rightarrow> string" where
  "StringValue p = (case p of None \<Rightarrow> [] | Some v \<Rightarrow> v)"

subsection \<open>The iterator type constants (kinesis.go, lines 15 to 21)\<close>

definition IteratorTypeAtSequenceNumber :: string where
  "IteratorTypeAtSequenceNumber = ''AT_SEQUENCE_NUMBER''"

definition IteratorTypeAfterSequenceNumber :: string where
  "IteratorTypeAfterSequenceNumber = ''AFTER_SEQUENCE_NUMER''"

definition IteratorTypeAtTimestamp :: string where
  "IteratorTypeAtTimestamp = ''AT_TIMESTAMP''"

definition IteratorTypeTrimHorizon :: string where
  "IteratorTypeTrimHorizon = ''TRIM_HORIZON''"

definition IteratorTypeLatest :: string where
  "IteratorTypeLatest = ''LATEST''"

text \<open>
  The five exported constants, in the order of the policies latest, trim-horizon,
  at-sequence-number, after-sequence-number, at-timestamp.
\<close>

definition IteratorTypes :: "string list" where
  "IteratorTypes =
     [IteratorTypeLatest, IteratorTypeTrimHorizon, IteratorTypeAtSequenceNumber,
      IteratorTypeAfterSequenceNumber, IteratorTypeAtTimestamp]"

text \<open>
  The identifiers of the same five policies as the package's own documentation lists
  them under "Iterator Types" (LATEST, TRIM_HORIZON, AT_SEQUENCE_NUMBER,
  AFTER_SEQUENCE_NUMBER, AT_TIMESTAMP); they are the values of the remote service's
  \<^verbatim>\<open>ShardIteratorType\<close> that the comment above the constants refers to.
\<close>

definition documented_iterator_types :: "string list" where
  "documented_iterator_types =
     [''LATEST'', ''TRIM_HORIZON'', ''AT_SEQUENCE_NUMBER'', ''AFTER_SEQUENCE_NUMBER'',
      ''AT_TIMESTAMP'']"

subsection \<open>Shard, Config\<close>

record Shard =
  ID :: string
  StartAt :: string

text \<open>
  \<^verbatim>\<open>Interval\<close> is a \<^verbatim>\<open>time.Duration\<close>, a signed 64-bit count of nanoseconds, and
  \<^verbatim>\<open>Limit\<close> an \<^verbatim>\<open>int64\<close>.
\<close>

record Config =
  Interval :: "64 word"
  IteratorType :: string
  Limit :: "64 word"

section \<open>The Store interface and LocalStore\<close>

text \<open>
  The interface \<^verbatim>\<open>Store\<close> is a table of its two methods over the state \<open>'st\<close> of the
  implementation. Either method may change that state, and returns what the Go method
  returns: \<^verbatim>\<open>(string, error)\<close> and \<^verbatim>\<open>error\<close>.
\<close>

record 'st Store =
  Store_GetShardIterator :: "'st \<Rightarrow> string \<Rightarrow> string \<Rightarrow> (string \<times> error option) \<times> 'st"
  Store_UpdateShardIterator :: "'st \<Rightarrow> string \<Rightarrow> string \<Rightarrow> string \<Rightarrow> error option \<times> 'st"

text \<open>
  \<^verbatim>\<open>LocalStore\<close> holds a Go map from string to string, here a partial map. The values
  of the type are those that \<^verbatim>\<open>NewLocalStore\<close> builds and the methods update (the
  fields are unexported); the mutex orders concurrent callers and has no effect on what
  a call computes, so a call is one atomic step here.
\<close>

record LocalStore =
  m :: "string \<rightharpoonup> string"

definition NewLocalStore :: LocalStore where
  "NewLocalStore = \<lparr>m = Map.empty\<rparr>"

text \<open>\<^verbatim>\<open>fmt.Sprintf("%s-%s", stream, shard)\<close>\<close>

definition key_of :: "string \<Rightarrow> string \<Rightarrow> string" where
  "key_of stream shard = stream @ ''-'' @ shard"

definition UpdateShardIterator :: "LocalStore \<Rightarrow> string \<Rightarrow> string \<Rightarrow> string \<Rightarrow> error option \<times> LocalStore" where
  "UpdateShardIterator s stream shard iterator =
     (let key = key_of stream shard
      in (None, s\<lparr>m := (m s)(key \<mapsto> iterator)\<rparr>))"

text \<open>Reading a Go map at a missing key gives the zero value, the empty string.\<close>

definition GetShardIterator :: "LocalStore \<Rightarrow> string \<Rightarrow> string \<Rightarrow> string \<times> error option" where
  "GetShardIterator s stream shard =
     (let key = key_of stream shard
      in (case m s key of None \<Rightarrow> [] | Some v \<Rightarrow> v, None))"

text \<open>\<^verbatim>\<open>*LocalStore\<close> as a \<^verbatim>\<open>Store\<close>; reading leaves the map as it is.\<close>

definition LocalStore_Store :: "LocalStore Store" where
  "LocalStore_Store =
     \<lparr>Store_GetShardIterator = (\<lambda>s stream shard. (GetShardIterator s stream shard, s)),
      Store_UpdateShardIterator = UpdateShardIterator\<rparr>"

section \<open>The remote service\<close>

text \<open>
  The parts of the service's request and response types that the package reads or
  writes. Fields that are pointers in the client library and that the package reads
  are options.
\<close>

datatype kinesis_Record = Record (SequenceNumber: "string option") (Data: string)

record SequenceNumberRange =
  StartingSequenceNumber :: "string option"

record kinesis_Shard =
  ShardId :: "string option"
  SequenceNumberRange :: "SequenceNumberRange option"

record StreamDescription =
  sd_Shards :: "kinesis_Shard option list"

record DescribeStreamInput =
  ds_StreamName :: string

record DescribeStreamOutput =
  StreamDescription :: "StreamDescription option"

record GetShardIteratorInput =
  gsi_ShardId :: string
  gsi_ShardIteratorType :: string
  gsi_StreamName :: string

record GetShardIteratorOutput =
  ShardIterator :: "string option"

record GetRecordsInput =
  gr_Limit :: "64 word"
  gr_ShardIterator :: string

record GetRecordsOutput =
  Records :: "kinesis_Record list"
  NextShardIterator :: "string option"

text \<open>
  The client \<^verbatim>\<open>*kinesis.Kinesis\<close> is a table of the three calls the package makes,
  over the state \<open>'k\<close> of the remote service: a call returns either an error or a
  response, and the next state of the service.
\<close>

record 'k Kinesis =
  DescribeStream :: "'k \<Rightarrow> DescribeStreamInput \<Rightarrow> (error + DescribeStreamOutput) \<times> 'k"
  Kinesis_GetShardIterator :: "'k \<Rightarrow> GetShardIteratorInput \<Rightarrow> (error + GetShardIteratorOutput) \<times> 'k"
  GetRecords :: "'k \<Rightarrow> GetRecordsInput \<Rightarrow> (error + GetRecordsOutput) \<times> 'k"

section \<open>Stream\<close>

text \<open>
  The state that the store and the service hold, which a \<^verbatim>\<open>Stream\<close> refers to through
  its fields \<^verbatim>\<open>store\<close> and \<^verbatim>\<open>svc\<close>.
\<close>

record ('st, 'k) world =
  store_state :: 'st
  svc_state :: 'k

text \<open>
  A \<^verbatim>\<open>Stream\<close> is one that \<^verbatim>\<open>NewStream\<close> built (the fields \<^verbatim>\<open>config\<close>, \<^verbatim>\<open>svc\<close> and
  \<^verbatim>\<open>store\<close> are unexported). Its \<^verbatim>\<open>Logger\<close> is the one that does nothing, or one the
  caller has put in its place; the result of every \<^verbatim>\<open>Log\<close> call is dropped and a
  logger has no part in the store or the service, so the field and the calls are left
  out.
\<close>

record ('st, 'k) Stream =
  Shards :: "Shard list"
  config :: Config
  Name :: string
  svc :: "'k Kinesis"
  store :: "'st Store"

text \<open>
  What a call does to its collaborators, in the order it does it: each call of the
  service, each call of the store with its arguments and result, and each batch handed
  to the handler. A fetch carries the ID of the shard it is made for.
\<close>

datatype event =
    DescribeStreamEv DescribeStreamInput "error + DescribeStreamOutput"
  | GetShardIteratorEv GetShardIteratorInput "error + GetShardIteratorOutput"
  | StoreGetEv string string "string \<times> error option"
  | GetRecordsEv string GetRecordsInput "error + GetRecordsOutput"
  | HandlerEv "kinesis_Record list"
  | StoreUpdateEv string string string "error option"

text \<open>A Go call either panics or returns.\<close>

datatype 'a outcome = Panicked | Returned 'a

subsection \<open>NewStream (kinesis.go, lines 78 to 110)\<close>

text \<open>
  The loop over \<^verbatim>\<open>resp.StreamDescription.Shards\<close>: \<open>None\<close> is the panic of a nil
  pointer dereference, at a nil shard or a nil \<^verbatim>\<open>SequenceNumberRange\<close>.
\<close>

fun describe_shards :: "kinesis_Shard option list \<Rightarrow> Shard list \<Rightarrow> Shard list option" where
  "describe_shards [] shards = Some shards"
| "describe_shards (None # rest) shards = None"
| "describe_shards (Some shard # rest) shards =
     (case SequenceNumberRange shard of
        None \<Rightarrow> None
      | Some rng \<Rightarrow>
          describe_shards rest
            (shards @ [\<lparr>ID = StringValue (ShardId shard),
                        StartAt = StringValue (StartingSequenceNumber rng)\<rparr>]))"

text \<open>
  \<^verbatim>\<open>kinesis.New(sess, ...)\<close> is the argument \<open>ksvc\<close>. The result is the pair
  \<^verbatim>\<open>(*Stream, error)\<close>, the events of the call and the state it leaves.
\<close>

definition NewStream ::
  "'k Kinesis \<Rightarrow> string \<Rightarrow> 'st Store \<Rightarrow> Config \<Rightarrow> ('st, 'k) world \<Rightarrow>
   (('st, 'k) Stream option \<times> error option) outcome \<times> event list \<times> ('st, 'k) world" where
  "NewStream ksvc stream st cfg w =
     (let inp = \<lparr>ds_StreamName = stream\<rparr>;
          (r, k') = DescribeStream ksvc (svc_state w) inp;
          evs = [DescribeStreamEv inp r];
          w' = w\<lparr>svc_state := k'\<rparr>
      in case r of
           Inl err \<Rightarrow> (Returned (None, Some err), evs, w')
         | Inr resp \<Rightarrow>
             (case StreamDescription resp of
                None \<Rightarrow> (Panicked, evs, w')
              | Some d \<Rightarrow>
                  (case describe_shards (sd_Shards d) [] of
                     None \<Rightarrow> (Panicked, evs, w')
                   | Some shards \<Rightarrow>
                       if length shards = 0
                       then (Returned (None, Some (Error ''kcl: stream has 0 shards'')), evs, w')
                       else (Returned
                               (Some \<lparr>Shards = shards, config = cfg, Name = stream,
                                      svc = ksvc, store = st\<rparr>, None), evs, w'))))"

subsection \<open>Ranging over the shards\<close>

text \<open>
  Each loop of the package over the shards has the shape
  \<^verbatim>\<open>for _, shard := range s.Shards { ... return err ... }\<close>: the body runs for each
  shard in the order of the slice, and the first body that returns an error ends the
  loop and the function with that error. A body gives the error it returns (\<open>None\<close> when
  it falls through to the next round), its events and the state it leaves.
\<close>

type_synonym ('st, 'k) step = "('st, 'k) world \<Rightarrow> error option \<times> event list \<times> ('st, 'k) world"

fun range_shards :: "(Shard \<Rightarrow> ('st, 'k) step) \<Rightarrow> Shard list \<Rightarrow> ('st, 'k) step" where
  "range_shards body [] w = (None, [], w)"
| "range_shards body (shard # rest) w =
     (case body shard w of
        (Some err, evs, w1) \<Rightarrow> (Some err, evs, w1)
      | (None, evs, w1) \<Rightarrow>
          (case range_shards body rest w1 of (res, evs', w2) \<Rightarrow> (res, evs @ evs', w2)))"

subsection \<open>setInitialIterators (kinesis.go, lines 159 to 178)\<close>

text \<open>The body of the loop, lines 163 to 174.\<close>

definition seed_shard :: "('st, 'k) Stream \<Rightarrow> Shard \<Rightarrow> ('st, 'k) step" where
  "seed_shard s shard w =
     (let inp = \<lparr>gsi_ShardId = ID shard, gsi_ShardIteratorType = IteratorType (config s),
                 gsi_StreamName = Name s\<rparr>;
          (r, k') = Kinesis_GetShardIterator (svc s) (svc_state w) inp;
          w1 = w\<lparr>svc_state := k'\<rparr>;
          ev1 = GetShardIteratorEv inp r
      in case r of
           Inl err \<Rightarrow> (Some err, [ev1], w1)
         | Inr resp \<Rightarrow>
             (let iterator = StringValue (ShardIterator resp);
                  (err, st') = Store_UpdateShardIterator (store s) (store_state w1) (Name s) (ID shard) iterator;
                  w2 = w1\<lparr>store_state := st'\<rparr>;
                  ev2 = StoreUpdateEv (Name s) (ID shard) iterator err
              in (err, [ev1, ev2], w2)))"

text \<open>The loop, and \<^verbatim>\<open>return nil\<close> after it.\<close>

definition setInitialIterators :: "('st, 'k) Stream \<Rightarrow> ('st, 'k) step" where
  "setInitialIterators s w = range_shards (seed_shard s) (Shards s) w"

subsection \<open>Listen (kinesis.go, lines 116 to 155)\<close>

text \<open>
  The body of the loop over the shards within one tick, lines 131 to 151. The handler
  runs in a goroutine of its own: the loop hands it the batch and goes on, and what the
  handler does is not part of the loop.
\<close>

definition poll_shard :: "('st, 'k) Stream \<Rightarrow> Shard \<Rightarrow> ('st, 'k) step" where
  "poll_shard s shard w =
     (let ((iterator, err), st') = Store_GetShardIterator (store s) (store_state w) (Name s) (ID shard);
          w1 = w\<lparr>store_state := st'\<rparr>;
          ev1 = StoreGetEv (Name s) (ID shard) (iterator, err)
      in case err of
           Some e \<Rightarrow> (Some e, [ev1], w1)
         | None \<Rightarrow>
             (let inp = \<lparr>gr_Limit = Limit (config s), gr_ShardIterator = iterator\<rparr>;
                  (r, k') = GetRecords (svc s) (svc_state w1) inp;
                  w2 = w1\<lparr>svc_state := k'\<rparr>;
                  ev2 = GetRecordsEv (ID shard) inp r
              in case r of
                   Inl e \<Rightarrow> (Some e, [ev1, ev2], w2)
                 | Inr resp \<Rightarrow>
                     (let ev3 = HandlerEv (Records resp);
                          nxt = StringValue (NextShardIterator resp);
                          (err', st2) = Store_UpdateShardIterator (store s) (store_state w2) (Name s) (ID shard) nxt;
                          w3 = w2\<lparr>store_state := st2\<rparr>;
                          ev4 = StoreUpdateEv (Name s) (ID shard) nxt err'
                      in (err', [ev1, ev2, ev3, ev4], w3))))"

text \<open>One tick: the body of \<^verbatim>\<open>case <-tick\<close>.\<close>

definition tick :: "('st, 'k) Stream \<Rightarrow> ('st, 'k) step" where
  "tick s w = range_shards (poll_shard s) (Shards s) w"

text \<open>
  What a run has done so far: the events of the seeding, then the events of each tick.
\<close>

record trace =
  seed_events :: "event list"
  tick_events :: "event list list"

text \<open>
  The loop \<^verbatim>\<open>for { select { case <-tick: ... } }\<close>. It has no exit but the three
  \<^verbatim>\<open>return err\<close> of its body; \<open>None\<close> is the loop that runs forever.
\<close>

partial_function (option) listen_loop ::
  "('st, 'k) Stream \<Rightarrow> trace \<Rightarrow> ('st, 'k) world \<Rightarrow> (error option outcome \<times> trace \<times> ('st, 'k) world) option" where
  "listen_loop s tr w =
     (case tick s w of
        (Some e, evs, w') \<Rightarrow> Some (Returned (Some e), tr\<lparr>tick_events := tick_events tr @ [evs]\<rparr>, w')
      | (None, evs, w') \<Rightarrow> listen_loop s (tr\<lparr>tick_events := tick_events tr @ [evs]\<rparr>) w')"

text \<open>
  \<^verbatim>\<open>time.NewTicker\<close> panics when the interval is not positive; otherwise the ticker
  fires again and again, and each round of the loop is one tick.
\<close>

definition Listen ::
  "('st, 'k) Stream \<Rightarrow> ('st, 'k) world \<Rightarrow> (error option outcome \<times> trace \<times> ('st, 'k) world) option" where
  "Listen s w =
     (if sint (Interval (config s)) \<le> 0
      then Some (Panicked, \<lparr>seed_events = [], tick_events = []\<rparr>, w)
      else case setInitialIterators s w of
             (Some err, evs, w') \<Rightarrow> Some (Returned (Some err), \<lparr>seed_events = evs, tick_events = []\<rparr>, w')
           | (None, evs, w') \<Rightarrow> listen_loop s \<lparr>seed_events = evs, tick_events = []\<rparr> w')"

text \<open>
  The same loop cut off after \<open>n\<close> ticks: the error that ended it, if one did, the
  events of the ticks it ran and the state it reached.
\<close>

fun run_ticks ::
  "nat \<Rightarrow> ('st, 'k) Stream \<Rightarrow> ('st, 'k) world \<Rightarrow> error option \<times> event list list \<times> ('st, 'k) world" where
  "run_ticks 0 s w = (None, [], w)"
| "run_ticks (Suc n) s w =
     (case tick s w of
        (Some e, evs, w') \<Rightarrow> (Some e, [evs], w')
      | (None, evs, w') \<Rightarrow>
          (case run_ticks n s w' of (res, evss, w2) \<Rightarrow> (res, evs # evss, w2)))"

text \<open>
  \<^verbatim>\<open>Listen\<close> cut off after \<open>n\<close> ticks; the result \<open>None\<close> is a call that is still in
  its loop.
\<close>

definition Listen_n ::
  "nat \<Rightarrow> ('st, 'k) Stream \<Rightarrow> ('st, 'k) world \<Rightarrow> error option outcome option \<times> trace \<times> ('st, 'k) world" where
  "Listen_n n s w =
     (if sint (Interval (config s)) \<le> 0
      then (Some Panicked, \<lparr>seed_events = [], tick_events = []\<rparr>, w)
      else case setInitialIterators s w of
             (Some err, evs, w') \<Rightarrow> (Some (Returned (Some err)), \<lparr>seed_events = evs, tick_events = []\<rparr>, w')
           | (None, evs, w') \<Rightarrow>
               (case run_ticks n s w' of
                  (res, evss, w2) \<Rightarrow>
                    (case res of None \<Rightarrow> None | Some e \<Rightarrow> Some (Returned (Some e)),
                     \<lparr>seed_events = evs, tick_events = evss\<rparr>, w2)))"

section \<open>Observations on the events of a run\<close>

text \<open>The calls of \<^verbatim>\<open>GetShardIterator\<close> of the service for the shard \<open>sid\<close>, in order.\<close>

fun seeds :: "string \<Rightarrow> event list \<Rightarrow> (GetShardIteratorInput \<times> (error + GetShardIteratorOutput)) list" where
  "seeds sid [] = []"
| "seeds sid (GetShardIteratorEv inp r # evs) =
     (if gsi_ShardId inp = sid then (inp, r) # seeds sid evs else seeds sid evs)"
| "seeds sid (_ # evs) = seeds sid evs"

text \<open>An event of the store.\<close>

definition is_store_call :: "event \<Rightarrow> bool" where
  "is_store_call ev =
     (case ev of StoreGetEv _ _ _ \<Rightarrow> True | StoreUpdateEv _ _ _ _ \<Rightarrow> True | _ \<Rightarrow> False)"

text \<open>The calls of \<^verbatim>\<open>GetRecords\<close> made for the shard \<open>sid\<close>, in order, each with its result.\<close>

fun fetches :: "string \<Rightarrow> event list \<Rightarrow> (GetRecordsInput \<times> (error + GetRecordsOutput)) list" where
  "fetches sid [] = []"
| "fetches sid (GetRecordsEv sid' inp r # evs) =
     (if sid' = sid then (inp, r) # fetches sid evs else fetches sid evs)"
| "fetches sid (_ # evs) = fetches sid evs"

text \<open>The values written to the store for the pair of \<open>stream\<close> and \<open>sid\<close>, in order.\<close>

fun updates :: "string \<Rightarrow> string \<Rightarrow> event list \<Rightarrow> (string \<times> error option) list" where
  "updates stream sid [] = []"
| "updates stream sid (StoreUpdateEv stream' sid' iterator err # evs) =
     (if stream' = stream \<and> sid' = sid then (iterator, err) # updates stream sid evs
      else updates stream sid evs)"
| "updates stream sid (_ # evs) = updates stream sid evs"

text \<open>The error that the call behind an event returned, if it returned one.\<close>

fun ev_error :: "event \<Rightarrow> error option" where
  "ev_error (DescribeStreamEv inp r) = (case r of Inl e \<Rightarrow> Some e | Inr _ \<Rightarrow> None)"
| "ev_error (GetShardIteratorEv inp r) = (case r of Inl e \<Rightarrow> Some e | Inr _ \<Rightarrow> None)"
| "ev_error (StoreGetEv stream sid r) = snd r"
| "ev_error (GetRecordsEv sid inp r) = (case r of Inl e \<Rightarrow> Some e | Inr _ \<Rightarrow> None)"
| "ev_error (HandlerEv records) = None"
| "ev_error (StoreUpdateEv stream sid iterator err) = err"

text \<open>No call among the events failed.\<close>

definition no_error :: "event list \<Rightarrow> bool" where
  "no_error evs = list_all (\<lambda>ev. ev_error ev = None) evs"

text \<open>The last event is a call that failed with \<open>e\<close>, and it is the first call that failed.\<close>

definition first_error :: "event list \<Rightarrow> error \<Rightarrow> bool" where
  "first_error evs e = (evs \<noteq> [] \<and> ev_error (last evs) = Some e \<and> no_error (butlast evs))"

text \<open>The event is a read of the store, a fetch or a write to the store for the shard \<open>sid\<close>.\<close>

fun about :: "string \<Rightarrow> event \<Rightarrow> bool" where
  "about sid (StoreGetEv stream sid' r) = (sid' = sid)"
| "about sid (GetRecordsEv sid' inp r) = (sid' = sid)"
| "about sid (StoreUpdateEv stream sid' iterator err) = (sid' = sid)"
| "about sid _ = False"

text \<open>All events of a run, in order.\<close>

definition all_events :: "trace \<Rightarrow> event list" where
  "all_events tr = seed_events tr @ concat (tick_events tr)"


section \<open>A stream to run the definitions on\<close>

text \<open>
  A service whose responses are fixed functions of the request; its state counts the
  calls. The stream "orders" has the two shards \<^verbatim>\<open>shard-0\<close> and \<^verbatim>\<open>shard-1\<close>; seeding
  gives the tokens \<^verbatim>\<open>it-0a\<close> and \<^verbatim>\<open>it-1a\<close>, the first fetch of \<^verbatim>\<open>shard-0\<close> three
  records and the token \<^verbatim>\<open>it-0b\<close>, the first fetch of \<^verbatim>\<open>shard-1\<close> no record and the
  token \<^verbatim>\<open>it-1b\<close>.
\<close>

definition scripted ::
  "(error + DescribeStreamOutput) \<Rightarrow> (GetShardIteratorInput \<Rightarrow> error + GetShardIteratorOutput) \<Rightarrow>
   (GetRecordsInput \<Rightarrow> error + GetRecordsOutput) \<Rightarrow> nat Kinesis" where
  "scripted d g r =
     \<lparr>DescribeStream = (\<lambda>k inp. (d, Suc k)),
      Kinesis_GetShardIterator = (\<lambda>k inp. (g inp, Suc k)),
      GetRecords = (\<lambda>k inp. (r inp, Suc k))\<rparr>"

definition orders_describe :: "error + DescribeStreamOutput" where
  "orders_describe =
     Inr \<lparr>StreamDescription = Some \<lparr>sd_Shards =
       [Some \<lparr>ShardId = Some ''shard-0'',
              SequenceNumberRange = Some \<lparr>StartingSequenceNumber = Some ''0''\<rparr>\<rparr>,
        Some \<lparr>ShardId = Some ''shard-1'',
              SequenceNumberRange = Some \<lparr>StartingSequenceNumber = Some ''0''\<rparr>\<rparr>]\<rparr>\<rparr>"

definition orders_iterator :: "GetShardIteratorInput \<Rightarrow> error + GetShardIteratorOutput" where
  "orders_iterator inp =
     Inr \<lparr>ShardIterator = Some (if gsi_ShardId inp = ''shard-0'' then ''it-0a'' else ''it-1a'')\<rparr>"

definition orders_records :: "GetRecordsInput \<Rightarrow> error + GetRecordsOutput" where
  "orders_records inp =
     (if gr_ShardIterator inp = ''it-0a''
      then Inr \<lparr>Records = [Record (Some ''1'') ''a'', Record (Some ''2'') ''b'', Record (Some ''3'') ''c''],
                NextShardIterator = Some ''it-0b''\<rparr>
      else if gr_ShardIterator inp = ''it-1a''
      then Inr \<lparr>Records = [], NextShardIterator = Some ''it-1b''\<rparr>
      else Inr \<lparr>Records = [], NextShardIterator = Some (gr_ShardIterator inp @ ''+'')\<rparr>)"

definition orders_config :: Config where
  "orders_config = \<lparr>Interval = 100000000, IteratorType = IteratorTypeLatest, Limit = 100\<rparr>"

definition orders_shards :: "Shard list" where
  "orders_shards = [\<lparr>ID = ''shard-0'', StartAt = ''0''\<rparr>, \<lparr>ID = ''shard-1'', StartAt = ''0''\<rparr>]"

definition orders_stream :: "(LocalStore, nat) Stream" where
  "orders_stream =
     \<lparr>Shards = orders_shards, config = orders_config, Name = ''orders'',
      svc = scripted orders_describe orders_iterator orders_records, store = LocalStore_Store\<rparr>"

definition world0 :: "(LocalStore, nat) world" where
  "world0 = \<lparr>store_state = NewLocalStore, svc_state = 0\<rparr>"

definition seeded :: "(LocalStore, nat) world" where
  "seeded = \<lparr>store_state = \<lparr>m = [''orders-shard-0'' \<mapsto> ''it-0a'', ''orders-shard-1'' \<mapsto> ''it-1a'']\<rparr>,
             svc_state = 2\<rparr>"

definition seed_trace :: "event list" where
  "seed_trace =
     [GetShardIteratorEv \<lparr>gsi_ShardId = ''shard-0'', gsi_ShardIteratorType = ''LATEST'', gsi_StreamName = ''orders''\<rparr>
        (Inr \<lparr>ShardIterator = Some ''it-0a''\<rparr>),
      StoreUpdateEv ''orders'' ''shard-0'' ''it-0a'' None,
      GetShardIteratorEv \<lparr>gsi_ShardId = ''shard-1'', gsi_ShardIteratorType = ''LATEST'', gsi_StreamName = ''orders''\<rparr>
        (Inr \<lparr>ShardIterator = Some ''it-1a''\<rparr>),
      StoreUpdateEv ''orders'' ''shard-1'' ''it-1a'' None]"

text \<open>A stream without shards, and a stream that the service does not know.\<close>

definition no_shards :: "error + DescribeStreamOutput" where
  "no_shards = Inr \<lparr>StreamDescription = Some \<lparr>sd_Shards = []\<rparr>\<rparr>"

definition not_found :: "error + DescribeStreamOutput" where
  "not_found = Inl (Error ''ResourceNotFoundException'')"

definition orders_tick1 :: "event list" where
  "orders_tick1 =
     [StoreGetEv ''orders'' ''shard-0'' (''it-0a'', None),
      GetRecordsEv ''shard-0'' \<lparr>gr_Limit = 100, gr_ShardIterator = ''it-0a''\<rparr>
        (Inr \<lparr>Records = [Record (Some ''1'') ''a'', Record (Some ''2'') ''b'', Record (Some ''3'') ''c''],
              NextShardIterator = Some ''it-0b''\<rparr>),
      HandlerEv [Record (Some ''1'') ''a'', Record (Some ''2'') ''b'', Record (Some ''3'') ''c''],
      StoreUpdateEv ''orders'' ''shard-0'' ''it-0b'' None,
      StoreGetEv ''orders'' ''shard-1'' (''it-1a'', None),
      GetRecordsEv ''shard-1'' \<lparr>gr_Limit = 100, gr_ShardIterator = ''it-1a''\<rparr>
        (Inr \<lparr>Records = [], NextShardIterator = Some ''it-1b''\<rparr>),
      HandlerEv [],
      StoreUpdateEv ''orders'' ''shard-1'' ''it-1b'' None]"

definition orders_tick2 :: "event list" where
  "orders_tick2 =
     [StoreGetEv ''orders'' ''shard-0'' (''it-0b'', None),
      GetRecordsEv ''shard-0'' \<lparr>gr_Limit = 100, gr_ShardIterator = ''it-0b''\<rparr>
        (Inr \<lparr>Records = [], NextShardIterator = Some ''it-0b+''\<rparr>),
      HandlerEv [],
      StoreUpdateEv ''orders'' ''shard-0'' ''it-0b+'' None,
      StoreGetEv ''orders'' ''shard-1'' (''it-1b'', None),
      GetRecordsEv ''shard-1'' \<lparr>gr_Limit = 100, gr_ShardIterator = ''it-1b''\<rparr>
        (Inr \<lparr>Records = [], NextShardIterator = Some ''it-1b+''\<rparr>),
      HandlerEv [],
      StoreUpdateEv ''orders'' ''shard-1'' ''it-1b+'' None]"

text \<open>The same stream on a service whose fetch at the token it-0b fails.\<close>

definition expiring_records :: "GetRecordsInput \<Rightarrow> error + GetRecordsOutput" where
  "expiring_records inp =
     (if gr_ShardIterator inp = ''it-0b'' then Inl (Error ''ExpiredIteratorException'')
      else orders_records inp)"

definition expiring_stream :: "(LocalStore, nat) Stream" where
  "expiring_stream = orders_stream\<lparr>svc := scripted orders_describe orders_iterator expiring_records\<rparr>"

definition expiring_tick2 :: "event list" where
  "expiring_tick2 =
     [StoreGetEv ''orders'' ''shard-0'' (''it-0b'', None),
      GetRecordsEv ''shard-0'' \<lparr>gr_Limit = 100, gr_ShardIterator = ''it-0b''\<rparr>
        (Inl (Error ''ExpiredIteratorException''))]"



section \<open>The reference store\<close>

lemma key_of_same_stream: "key_of stream a = key_of stream b \<longleftrightarrow> a = b"
  by (simp add: key_of_def)

lemma GetShardIterator_update_same:
  "GetShardIterator (snd (UpdateShardIterator s stream shard v)) stream shard = (v, None)"
  by (simp add: GetShardIterator_def UpdateShardIterator_def)

lemma GetShardIterator_update_other:
  "key_of stream2 shard2 \<noteq> key_of stream1 shard1 \<Longrightarrow>
   GetShardIterator (snd (UpdateShardIterator s stream1 shard1 v)) stream2 shard2 =
   GetShardIterator s stream2 shard2"
  by (simp add: GetShardIterator_def UpdateShardIterator_def)

lemma GetShardIterator_new: "GetShardIterator NewLocalStore stream shard = ([], None)"
  by (simp add: GetShardIterator_def NewLocalStore_def)

lemma LocalStore_never_fails:
  "fst (UpdateShardIterator s stream shard v) = None" "snd (GetShardIterator s stream shard) = None"
  by (simp_all add: GetShardIterator_def UpdateShardIterator_def)

text \<open>
  C5. Writing one pair leaves the value read for any other pair as it was. The key of
  a pair is the two names joined by a hyphen, and names may hold hyphens themselves:
  the pairs (orders-eu, 1) and (orders, eu-1) differ and have the same key. After
  \<open>x\<close> is written for (orders, eu-1), writing \<open>y\<close> for (orders-eu, 1) changes what is
  read for (orders, eu-1) from \<open>x\<close> to \<open>y\<close>.
\<close>

theorem LocalStore_key_collision:
  "(''orders-eu'', ''1'') \<noteq> (''orders'', ''eu-1'') \<and>
   GetShardIterator (snd (UpdateShardIterator NewLocalStore ''orders'' ''eu-1'' ''x''))
     ''orders'' ''eu-1'' = (''x'', None) \<and>
   GetShardIterator
     (snd (UpdateShardIterator (snd (UpdateShardIterator NewLocalStore ''orders'' ''eu-1'' ''x''))
        ''orders-eu'' ''1'' ''y''))
     ''orders'' ''eu-1'' = (''y'', None)"
  by (simp add: GetShardIterator_def UpdateShardIterator_def NewLocalStore_def key_of_def)

text \<open>
  C7. Reading a pair gives the value last written for that pair, and the empty string
  for a pair never written, with a nil error. On a new store the only write is \<open>x\<close> for
  the pair (orders-eu, 1); reading the pair (orders, eu-1), which was never written,
  gives \<open>x\<close> and not the empty string.
\<close>

theorem LocalStore_get_unwritten_pair:
  "(''orders'', ''eu-1'') \<noteq> (''orders-eu'', ''1'') \<and>
   GetShardIterator (snd (UpdateShardIterator NewLocalStore ''orders-eu'' ''1'' ''x''))
     ''orders'' ''eu-1'' = (''x'', None)"
  by (simp add: GetShardIterator_def UpdateShardIterator_def NewLocalStore_def key_of_def)

section \<open>The iterator type constants\<close>

text \<open>
  C8. The five constants are the five identifiers of the service, and the one of the
  after-sequence-number policy is \<^verbatim>\<open>AFTER_SEQUENCE_NUMBER\<close>. The constant is spelt
  \<^verbatim>\<open>AFTER_SEQUENCE_NUMER\<close>, which is none of the five identifiers; the other four
  constants are right.
\<close>

theorem IteratorTypeAfterSequenceNumber_misspelt:
  "IteratorTypeAfterSequenceNumber = ''AFTER_SEQUENCE_NUMER'' \<and>
   IteratorTypeAfterSequenceNumber \<noteq> ''AFTER_SEQUENCE_NUMBER'' \<and>
   IteratorTypeAfterSequenceNumber \<notin> set documented_iterator_types \<and>
   IteratorTypes \<noteq> documented_iterator_types \<and>
   [IteratorTypeLatest, IteratorTypeTrimHorizon, IteratorTypeAtSequenceNumber, IteratorTypeAtTimestamp] =
   [''LATEST'', ''TRIM_HORIZON'', ''AT_SEQUENCE_NUMBER'', ''AT_TIMESTAMP'']"
  by (simp add: IteratorTypeAfterSequenceNumber_def documented_iterator_types_def IteratorTypes_def
        IteratorTypeLatest_def IteratorTypeTrimHorizon_def IteratorTypeAtSequenceNumber_def
        IteratorTypeAtTimestamp_def)

section \<open>NewStream\<close>

lemma NewStream_orders:
  "NewStream (scripted orders_describe orders_iterator orders_records) ''orders'' LocalStore_Store
     orders_config world0 =
   (Returned (Some orders_stream, None), [DescribeStreamEv \<lparr>ds_StreamName = ''orders''\<rparr> orders_describe],
    \<lparr>store_state = NewLocalStore, svc_state = 1\<rparr>)"
  by (simp add: NewStream_def scripted_def orders_describe_def orders_stream_def orders_shards_def
        world0_def StringValue_def)

text \<open>
  C4. When the describe call fails, or its response holds no shard, \<^verbatim>\<open>NewStream\<close>
  returns a nil handle and an error (the error of the call, or "kcl: stream has 0
  shards"), and the construction makes no call of the store: its only event is the
  describe call, and the state of the store is the one it started from.
\<close>

theorem NewStream_failure_no_store_write:
  assumes "NewStream ksvc stream st cfg w = (res, evs, w')"
      and "fst (DescribeStream ksvc (svc_state w) \<lparr>ds_StreamName = stream\<rparr>) = r"
      and "(\<exists>e. r = Inl e) \<or> (\<exists>out d. r = Inr out \<and> StreamDescription out = Some d \<and> sd_Shards d = [])"
  shows "(\<exists>e. res = Returned (None, Some e) \<and>
              (case r of Inl e' \<Rightarrow> e = e' | Inr _ \<Rightarrow> e = Error ''kcl: stream has 0 shards''))
       \<and> store_state w' = store_state w
       \<and> evs = [DescribeStreamEv \<lparr>ds_StreamName = stream\<rparr> r]
       \<and> (\<forall>ev \<in> set evs. \<not> is_store_call ev)"
  using assms by (auto simp: NewStream_def is_store_call_def Let_def split: prod.splits)

theorem NewStream_failure_no_store_write_witness:
  "NewStream (scripted no_shards orders_iterator orders_records) ''orders'' LocalStore_Store
     orders_config world0 =
   (Returned (None, Some (Error ''kcl: stream has 0 shards'')),
    [DescribeStreamEv \<lparr>ds_StreamName = ''orders''\<rparr> no_shards],
    \<lparr>store_state = NewLocalStore, svc_state = 1\<rparr>) \<and>
   NewStream (scripted not_found orders_iterator orders_records) ''orders'' LocalStore_Store
     orders_config world0 =
   (Returned (None, Some (Error ''ResourceNotFoundException'')),
    [DescribeStreamEv \<lparr>ds_StreamName = ''orders''\<rparr> not_found],
    \<lparr>store_state = NewLocalStore, svc_state = 1\<rparr>)"
proof -
  let ?w1 = "\<lparr>store_state = NewLocalStore, svc_state = 1::nat\<rparr>"
  let ?a = "NewStream (scripted no_shards orders_iterator orders_records) ''orders'' LocalStore_Store
              orders_config world0"
  let ?b = "NewStream (scripted not_found orders_iterator orders_records) ''orders'' LocalStore_Store
              orders_config world0"
  have a: "?a = (fst ?a, fst (snd ?a), snd (snd ?a))" and b: "?b = (fst ?b, fst (snd ?b), snd (snd ?b))"
    by simp_all
  have ra: "fst (DescribeStream (scripted no_shards orders_iterator orders_records) (svc_state world0)
              \<lparr>ds_StreamName = ''orders''\<rparr>) = no_shards"
   and rb: "fst (DescribeStream (scripted not_found orders_iterator orders_records) (svc_state world0)
              \<lparr>ds_StreamName = ''orders''\<rparr>) = not_found"
    by (simp_all add: scripted_def)
  have da: "(\<exists>e. no_shards = Inl e) \<or>
            (\<exists>out d. no_shards = Inr out \<and> StreamDescription out = Some d \<and> sd_Shards d = [])"
   and db: "(\<exists>e. not_found = Inl e) \<or>
            (\<exists>out d. not_found = Inr out \<and> StreamDescription out = Some d \<and> sd_Shards d = [])"
    by (simp_all add: no_shards_def not_found_def)
  have wa: "snd (snd ?a) = ?w1" and wb: "snd (snd ?b) = ?w1"
    by (simp_all add: NewStream_def scripted_def no_shards_def not_found_def world0_def)
  from NewStream_failure_no_store_write[OF a ra da] wa
  have "?a = (Returned (None, Some (Error ''kcl: stream has 0 shards'')),
              [DescribeStreamEv \<lparr>ds_StreamName = ''orders''\<rparr> no_shards], ?w1)"
    by (auto simp: prod_eq_iff no_shards_def)
  moreover
  from NewStream_failure_no_store_write[OF b rb db] wb
  have "?b = (Returned (None, Some (Error ''ResourceNotFoundException'')),
              [DescribeStreamEv \<lparr>ds_StreamName = ''orders''\<rparr> not_found], ?w1)"
    by (auto simp: prod_eq_iff not_found_def)
  ultimately show ?thesis by simp
qed

section \<open>Seeding\<close>

lemma seeds_append: "seeds sid (xs @ ys) = seeds sid xs @ seeds sid ys"
  by (induction sid xs rule: seeds.induct) simp_all

lemma range_shards_Cons_cases:
  assumes "range_shards body (x # xs) w = (res, evs, w')"
  shows "(\<exists>e. res = Some e \<and> body x w = (Some e, evs, w')) \<or>
         (\<exists>evs1 w1 evs2. body x w = (None, evs1, w1) \<and> range_shards body xs w1 = (res, evs2, w') \<and>
                          evs = evs1 @ evs2)"
  using assms by (auto split: prod.splits option.splits)

lemma range_shards_Cons_None:
  assumes "range_shards body (x # xs) w = (None, evs, w')"
  shows "\<exists>evs1 w1 evs2. body x w = (None, evs1, w1) \<and> range_shards body xs w1 = (None, evs2, w') \<and>
                          evs = evs1 @ evs2"
  using range_shards_Cons_cases[OF assms] by simp

text \<open>Seeding one shard into the local store, then all of them.\<close>

lemma seed_shard_local:
  assumes "store s = LocalStore_Store" and "seed_shard s x w = (None, evs, w')"
  shows "\<exists>inp out. evs = [GetShardIteratorEv inp (Inr out),
                          StoreUpdateEv (Name s) (ID x) (StringValue (ShardIterator out)) None] \<and>
           gsi_ShardId inp = ID x \<and>
           m (store_state w') = (m (store_state w))(key_of (Name s) (ID x) \<mapsto> StringValue (ShardIterator out))"
  using assms
  by (auto simp: seed_shard_def Let_def LocalStore_Store_def UpdateShardIterator_def
           split: prod.splits sum.splits)

lemma seed_shards_local_dom:
  assumes "store s = LocalStore_Store"
  shows "range_shards (seed_shard s) xs w = (None, evs, w') \<Longrightarrow>
         dom (m (store_state w')) = dom (m (store_state w)) \<union> key_of (Name s) ` ID ` set xs"
proof (induction xs arbitrary: w evs)
  case Nil
  then show ?case by simp
next
  case (Cons x xs)
  from range_shards_Cons_None[OF Cons.prems] obtain evs1 w1 evs2 where
    b: "seed_shard s x w = (None, evs1, w1)" and r: "range_shards (seed_shard s) xs w1 = (None, evs2, w')"
    by auto
  from seed_shard_local[OF assms b]
  have "dom (m (store_state w1)) = insert (key_of (Name s) (ID x)) (dom (m (store_state w)))"
    by auto
  with Cons.IH[OF r] show ?case by simp
qed

lemma seed_shards_local_other:
  assumes "store s = LocalStore_Store"
  shows "range_shards (seed_shard s) xs w = (None, evs, w') \<Longrightarrow> sid \<notin> ID ` set xs \<Longrightarrow>
           seeds sid evs = [] \<and>
           m (store_state w') (key_of (Name s) sid) = m (store_state w) (key_of (Name s) sid)"
proof (induction xs arbitrary: w evs)
  case Nil
  then show ?case by simp
next
  case (Cons x xs)
  from range_shards_Cons_None[OF Cons.prems(1)] obtain evs1 w1 evs2 where
    b: "seed_shard s x w = (None, evs1, w1)" and r: "range_shards (seed_shard s) xs w1 = (None, evs2, w')"
    and e: "evs = evs1 @ evs2"
    by auto
  from Cons.prems(2) have n: "sid \<notin> ID ` set xs" and d: "sid \<noteq> ID x" by auto
  from seed_shard_local[OF assms b] d
  have "seeds sid evs1 = []"
       "m (store_state w1) (key_of (Name s) sid) = m (store_state w) (key_of (Name s) sid)"
    by (auto simp: key_of_same_stream)
  with Cons.IH[OF r n] e show ?case by (simp add: seeds_append)
qed

lemma seed_shards_local_mem:
  assumes "store s = LocalStore_Store"
  shows "range_shards (seed_shard s) xs w = (None, evs, w') \<Longrightarrow> sid \<in> ID ` set xs \<Longrightarrow>
           \<exists>inp out. seeds sid evs \<noteq> [] \<and> last (seeds sid evs) = (inp, Inr out) \<and>
             (distinct (map ID xs) \<longrightarrow> seeds sid evs = [(inp, Inr out)]) \<and>
             m (store_state w') (key_of (Name s) sid) = Some (StringValue (ShardIterator out))"
proof (induction xs arbitrary: w evs)
  case Nil
  then show ?case by simp
next
  case (Cons x xs)
  from range_shards_Cons_None[OF Cons.prems(1)] obtain evs1 w1 evs2 where
    b: "seed_shard s x w = (None, evs1, w1)" and r: "range_shards (seed_shard s) xs w1 = (None, evs2, w')"
    and e: "evs = evs1 @ evs2"
    by auto
  from seed_shard_local[OF assms b] obtain inp out where
    e1: "evs1 = [GetShardIteratorEv inp (Inr out),
                 StoreUpdateEv (Name s) (ID x) (StringValue (ShardIterator out)) None]"
    and i1: "gsi_ShardId inp = ID x"
    and m1: "m (store_state w1) = (m (store_state w))(key_of (Name s) (ID x) \<mapsto> StringValue (ShardIterator out))"
    by auto
  show ?case
  proof (cases "sid \<in> ID ` set xs")
    case True
    from Cons.IH[OF r True] obtain inp2 out2 where
      a: "seeds sid evs2 \<noteq> []" "last (seeds sid evs2) = (inp2, Inr out2)"
         "distinct (map ID xs) \<longrightarrow> seeds sid evs2 = [(inp2, Inr out2)]"
         "m (store_state w') (key_of (Name s) sid) = Some (StringValue (ShardIterator out2))"
      by auto
    have "distinct (map ID (x # xs)) \<longrightarrow> seeds sid evs1 = []"
      using True e1 i1 by auto
    with a e show ?thesis by (auto simp: seeds_append)
  next
    case False
    with Cons.prems(2) have sx: "sid = ID x" by auto
    from seed_shards_local_other[OF assms r False]
    have "seeds sid evs2 = []"
         "m (store_state w') (key_of (Name s) sid) = m (store_state w1) (key_of (Name s) sid)"
      by auto
    with e e1 i1 m1 sx show ?thesis by (simp add: seeds_append)
  qed
qed

text \<open>
  C2. When \<^verbatim>\<open>setInitialIterators\<close> returns nil on a stream whose local store was
  empty, the store holds an entry for the pair of the stream and each shard of the
  stream, and no other entry; the entry of a shard is the token that the last
  \<^verbatim>\<open>GetShardIterator\<close> call of the service for that shard returned, which is the only
  such call when the shards have distinct IDs.
\<close>

theorem seeding_postcondition:
  assumes "store s = LocalStore_Store"
      and "m (store_state w) = Map.empty"
      and "setInitialIterators s w = (None, evs, w')"
      and "shard \<in> set (Shards s)"
  shows "\<exists>inp out.
           seeds (ID shard) evs \<noteq> [] \<and> last (seeds (ID shard) evs) = (inp, Inr out) \<and>
           (distinct (map ID (Shards s)) \<longrightarrow> seeds (ID shard) evs = [(inp, Inr out)]) \<and>
           m (store_state w') (key_of (Name s) (ID shard)) = Some (StringValue (ShardIterator out)) \<and>
           GetShardIterator (store_state w') (Name s) (ID shard) = (StringValue (ShardIterator out), None) \<and>
           dom (m (store_state w')) = key_of (Name s) ` ID ` set (Shards s)"
proof -
  from assms(3) have st: "range_shards (seed_shard s) (Shards s) w = (None, evs, w')"
    by (simp add: setInitialIterators_def)
  from assms(4) have mem: "ID shard \<in> ID ` set (Shards s)" by simp
  have c: "dom (m (store_state w')) = key_of (Name s) ` ID ` set (Shards s)"
    using seed_shards_local_dom[OF assms(1) st] assms(2) by simp
  from seed_shards_local_mem[OF assms(1) st mem] c show ?thesis
    by (auto simp: GetShardIterator_def)
qed


lemma orders_seeding: "setInitialIterators orders_stream world0 = (None, seed_trace, seeded)"
  by (simp add: setInitialIterators_def orders_stream_def orders_shards_def seed_shard_def Let_def
        scripted_def orders_iterator_def orders_config_def IteratorTypeLatest_def LocalStore_Store_def
        UpdateShardIterator_def key_of_def StringValue_def world0_def NewLocalStore_def seeded_def
        seed_trace_def)

theorem seeding_postcondition_witness:
  "store orders_stream = LocalStore_Store \<and>
   m (store_state world0) = Map.empty \<and>
   setInitialIterators orders_stream world0 = (None, seed_trace, seeded) \<and>
   \<lparr>ID = ''shard-1'', StartAt = ''0''\<rparr> \<in> set (Shards orders_stream) \<and>
   distinct (map ID (Shards orders_stream)) \<and>
   seeds ''shard-1'' seed_trace =
     [(\<lparr>gsi_ShardId = ''shard-1'', gsi_ShardIteratorType = ''LATEST'', gsi_StreamName = ''orders''\<rparr>,
       Inr \<lparr>ShardIterator = Some ''it-1a''\<rparr>)] \<and>
   GetShardIterator (store_state seeded) ''orders'' ''shard-1'' = (''it-1a'', None) \<and>
   dom (m (store_state seeded)) = {''orders-shard-0'', ''orders-shard-1''}"
proof -
  have h1: "store orders_stream = LocalStore_Store" by (simp add: orders_stream_def)
  have h2: "m (store_state world0) = Map.empty" by (simp add: world0_def NewLocalStore_def)
  have h4: "\<lparr>ID = ''shard-1'', StartAt = ''0''\<rparr> \<in> set (Shards orders_stream)"
    by (simp add: orders_stream_def orders_shards_def)
  have h5: "distinct (map ID (Shards orders_stream))"
    by (simp add: orders_stream_def orders_shards_def)
  have sd: "seeds ''shard-1'' seed_trace =
     [(\<lparr>gsi_ShardId = ''shard-1'', gsi_ShardIteratorType = ''LATEST'', gsi_StreamName = ''orders''\<rparr>,
       Inr \<lparr>ShardIterator = Some ''it-1a''\<rparr>)]"
    by (simp add: seed_trace_def)
  from seeding_postcondition[OF h1 h2 orders_seeding h4]
  have "GetShardIterator (store_state seeded) ''orders'' ''shard-1'' = (''it-1a'', None) \<and>
        dom (m (store_state seeded)) = {''orders-shard-0'', ''orders-shard-1''}"
    by (auto simp: seed_trace_def orders_stream_def orders_shards_def key_of_def StringValue_def)
  with h1 h2 h4 h5 sd orders_seeding show ?thesis by simp
qed

section \<open>Events and errors\<close>

lemma fetches_append: "fetches sid (xs @ ys) = fetches sid xs @ fetches sid ys"
  by (induction sid xs rule: fetches.induct) simp_all

lemma updates_append: "updates stream sid (xs @ ys) = updates stream sid xs @ updates stream sid ys"
  by (induction stream sid xs rule: updates.induct) simp_all

lemma fetches_mem: "(inp, r) \<in> set (fetches sid evs) \<longleftrightarrow> GetRecordsEv sid inp r \<in> set evs"
  by (induction sid evs rule: fetches.induct) auto

lemma updates_mem:
  "(iterator, err) \<in> set (updates stream sid evs) \<longleftrightarrow> StoreUpdateEv stream sid iterator err \<in> set evs"
  by (induction stream sid evs rule: updates.induct) auto

lemma no_error_append: "no_error (xs @ ys) \<longleftrightarrow> no_error xs \<and> no_error ys"
  by (simp add: no_error_def)

lemma no_error_Nil: "no_error []"
  by (simp add: no_error_def)

lemma first_error_append: "no_error xs \<Longrightarrow> first_error ys e \<Longrightarrow> first_error (xs @ ys) e"
  by (simp add: first_error_def butlast_append no_error_append)

lemma first_error_not_no_error: "first_error evs e \<Longrightarrow> \<not> no_error evs"
  by (cases evs rule: rev_cases) (auto simp: first_error_def no_error_def)

lemma first_error_unique:
  assumes "first_error evs e" and "ev \<in> set evs" and "ev_error ev = Some e'"
  shows "ev = last evs \<and> e' = e"
proof (cases evs rule: rev_cases)
  case Nil
  with assms(2) show ?thesis by simp
next
  case (snoc ys y)
  with assms(1) have a: "ev_error y = Some e" and b: "\<forall>z \<in> set ys. ev_error z = None"
    by (simp_all add: first_error_def no_error_def list_all_iff)
  from b assms(3) have "ev \<notin> set ys" by auto
  with assms(2) snoc have "ev = y" by simp
  with a assms(3) snoc show ?thesis by simp
qed

text \<open>The body of the poll loop.\<close>

lemma poll_shard_error:
  assumes "poll_shard s x w = (res, evs, w')"
  shows "(res = None \<longrightarrow> no_error evs) \<and> (\<forall>e. res = Some e \<longrightarrow> first_error evs e)"
  using assms
  by (auto simp: poll_shard_def Let_def no_error_def first_error_def
           split: prod.splits sum.splits option.splits)

lemma seed_shard_error:
  assumes "seed_shard s x w = (res, evs, w')"
  shows "(res = None \<longrightarrow> no_error evs) \<and> (\<forall>e. res = Some e \<longrightarrow> first_error evs e)"
  using assms
  by (auto simp: seed_shard_def Let_def no_error_def first_error_def
           split: prod.splits sum.splits option.splits)

lemma poll_shard_about:
  assumes "poll_shard s x w = (res, evs, w')" and "ev \<in> set evs" and "about sid ev"
  shows "sid = ID x"
  using assms
  by (auto simp: poll_shard_def Let_def split: prod.splits sum.splits option.splits)

lemma poll_shard_failed_fetch:
  assumes "poll_shard s x w = (res, evs, w')" and "GetRecordsEv sid inp (Inl e) \<in> set evs"
  shows "updates stream sid' evs = [] \<and>
         store_state w' = snd (Store_GetShardIterator (store s) (store_state w) (Name s) (ID x))"
  using assms
  by (auto simp: poll_shard_def Let_def split: prod.splits sum.splits option.splits)

lemma poll_shard_local:
  assumes "store s = LocalStore_Store" and "poll_shard s x w = (res, evs, w')"
  shows "\<exists>inp. gr_ShardIterator inp = fst (GetShardIterator (store_state w) (Name s) (ID x)) \<and>
           gr_Limit inp = Limit (config s) \<and>
           ((\<exists>out. res = None \<and>
               evs = [StoreGetEv (Name s) (ID x) (gr_ShardIterator inp, None),
                      GetRecordsEv (ID x) inp (Inr out), HandlerEv (Records out),
                      StoreUpdateEv (Name s) (ID x) (StringValue (NextShardIterator out)) None] \<and>
               m (store_state w') =
                 (m (store_state w))(key_of (Name s) (ID x) \<mapsto> StringValue (NextShardIterator out))) \<or>
            (\<exists>e. res = Some e \<and>
               evs = [StoreGetEv (Name s) (ID x) (gr_ShardIterator inp, None),
                      GetRecordsEv (ID x) inp (Inl e)] \<and>
               store_state w' = store_state w))"
  using assms
  by (auto simp: poll_shard_def Let_def LocalStore_Store_def UpdateShardIterator_def GetShardIterator_def
           split: prod.splits sum.splits option.splits)

section \<open>One pass over the shards\<close>

lemma range_shards_error:
  assumes body: "\<And>x w res evs w'. body x w = (res, evs, w') \<Longrightarrow>
                   (res = None \<longrightarrow> no_error evs) \<and> (\<forall>e. res = Some e \<longrightarrow> first_error evs e)"
  shows "range_shards body xs w = (res, evs, w') \<Longrightarrow>
         (res = None \<longrightarrow> no_error evs) \<and> (\<forall>e. res = Some e \<longrightarrow> first_error evs e)"
proof (induction xs arbitrary: w evs)
  case Nil
  then show ?case by (simp add: no_error_Nil)
next
  case (Cons x xs)
  from range_shards_Cons_cases[OF Cons.prems]
  show ?case
  proof (elim disjE exE conjE)
    fix e assume "res = Some e" "body x w = (Some e, evs, w')"
    with body[of x w "Some e" evs w'] show ?thesis by simp
  next
    fix evs1 w1 evs2
    assume b: "body x w = (None, evs1, w1)" and r: "range_shards body xs w1 = (res, evs2, w')"
       and e: "evs = evs1 @ evs2"
    from body[OF b] have "no_error evs1" by simp
    with Cons.IH[OF r] e show ?thesis
      by (simp add: no_error_append first_error_append)
  qed
qed

lemma tick_error:
  "tick s w = (res, evs, w') \<Longrightarrow>
   (res = None \<longrightarrow> no_error evs) \<and> (\<forall>e. res = Some e \<longrightarrow> first_error evs e)"
  unfolding tick_def by (rule range_shards_error[OF poll_shard_error])

lemma setInitialIterators_error:
  "setInitialIterators s w = (res, evs, w') \<Longrightarrow>
   (res = None \<longrightarrow> no_error evs) \<and> (\<forall>e. res = Some e \<longrightarrow> first_error evs e)"
  unfolding setInitialIterators_def by (rule range_shards_error[OF seed_shard_error])


text \<open>A tick on the local store.\<close>

lemma poll_shards_local_other:
  assumes "store s = LocalStore_Store"
  shows "range_shards (poll_shard s) xs w = (res, evs, w') \<Longrightarrow> sid \<notin> ID ` set xs \<Longrightarrow>
         fetches sid evs = [] \<and> updates (Name s) sid evs = [] \<and>
         GetShardIterator (store_state w') (Name s) sid = GetShardIterator (store_state w) (Name s) sid"
proof (induction xs arbitrary: w evs)
  case Nil
  then show ?case by simp
next
  case (Cons x xs)
  from Cons.prems(2) have n: "sid \<notin> ID ` set xs" and d: "sid \<noteq> ID x" by auto
  from range_shards_Cons_cases[OF Cons.prems(1)]
  show ?case
  proof (elim disjE exE conjE)
    fix e assume "res = Some e" and b: "poll_shard s x w = (Some e, evs, w')"
    from poll_shard_local[OF assms b] d show ?thesis
      by (auto simp: GetShardIterator_def key_of_same_stream)
  next
    fix evs1 w1 evs2
    assume b: "poll_shard s x w = (None, evs1, w1)"
       and r: "range_shards (poll_shard s) xs w1 = (res, evs2, w')"
       and e: "evs = evs1 @ evs2"
    from poll_shard_local[OF assms b] d
    have "fetches sid evs1 = [] \<and> updates (Name s) sid evs1 = [] \<and>
          GetShardIterator (store_state w1) (Name s) sid = GetShardIterator (store_state w) (Name s) sid"
      by (auto simp: GetShardIterator_def key_of_same_stream)
    with Cons.IH[OF r n] e show ?thesis by (simp add: fetches_append updates_append)
  qed
qed

lemma poll_shards_local_iterator:
  assumes "store s = LocalStore_Store"
  shows "range_shards (poll_shard s) xs w = (res, evs, w') \<Longrightarrow> distinct (map ID xs) \<Longrightarrow>
         (inp, r) \<in> set (fetches sid evs) \<Longrightarrow>
         gr_ShardIterator inp = fst (GetShardIterator (store_state w) (Name s) sid)"
proof (induction xs arbitrary: w evs)
  case Nil
  then show ?case by simp
next
  case (Cons x xs)
  from Cons.prems(2) have dx: "distinct (map ID xs)" and nx: "ID x \<notin> ID ` set xs" by auto
  from range_shards_Cons_cases[OF Cons.prems(1)]
  show ?case
  proof (elim disjE exE conjE)
    fix e assume "res = Some e" and b: "poll_shard s x w = (Some e, evs, w')"
    from poll_shard_local[OF assms b] Cons.prems(3) show ?thesis
      by (auto split: if_splits)
  next
    fix evs1 w1 evs2
    assume b: "poll_shard s x w = (None, evs1, w1)"
       and rr: "range_shards (poll_shard s) xs w1 = (res, evs2, w')"
       and e: "evs = evs1 @ evs2"
    show ?thesis
    proof (cases "sid = ID x")
      case True
      with nx have "sid \<notin> ID ` set xs" by simp
      from poll_shards_local_other[OF assms rr this] have "fetches sid evs2 = []" by simp
      with Cons.prems(3) e have "(inp, r) \<in> set (fetches sid evs1)" by (simp add: fetches_append)
      with poll_shard_local[OF assms b] True show ?thesis by (auto split: if_splits)
    next
      case False
      with poll_shard_local[OF assms b]
      have "fetches sid evs1 = [] \<and>
            GetShardIterator (store_state w1) (Name s) sid = GetShardIterator (store_state w) (Name s) sid"
        by (auto simp: GetShardIterator_def key_of_same_stream)
      with Cons.prems(3) e Cons.IH[OF rr dx] show ?thesis by (simp add: fetches_append)
    qed
  qed
qed

lemma poll_shards_local_ok:
  assumes "store s = LocalStore_Store"
  shows "range_shards (poll_shard s) xs w = (None, evs, w') \<Longrightarrow> distinct (map ID xs) \<Longrightarrow>
         sid \<in> ID ` set xs \<Longrightarrow>
         \<exists>inp out. fetches sid evs = [(inp, Inr out)] \<and>
           updates (Name s) sid evs = [(StringValue (NextShardIterator out), None)] \<and>
           GetShardIterator (store_state w') (Name s) sid = (StringValue (NextShardIterator out), None)"
proof (induction xs arbitrary: w evs)
  case Nil
  then show ?case by simp
next
  case (Cons x xs)
  from Cons.prems(2) have dx: "distinct (map ID xs)" and nx: "ID x \<notin> ID ` set xs" by auto
  from range_shards_Cons_None[OF Cons.prems(1)] obtain evs1 w1 evs2 where
    b: "poll_shard s x w = (None, evs1, w1)" and
    rr: "range_shards (poll_shard s) xs w1 = (None, evs2, w')" and
    e: "evs = evs1 @ evs2" by auto
  show ?case
  proof (cases "sid = ID x")
    case True
    with nx have "sid \<notin> ID ` set xs" by simp
    from poll_shards_local_other[OF assms rr this]
    have o: "fetches sid evs2 = []" "updates (Name s) sid evs2 = []"
      "GetShardIterator (store_state w') (Name s) sid = GetShardIterator (store_state w1) (Name s) sid"
      by simp_all
    from poll_shard_local[OF assms b] True obtain inp out where
      "fetches sid evs1 = [(inp, Inr out)]"
      "updates (Name s) sid evs1 = [(StringValue (NextShardIterator out), None)]"
      "GetShardIterator (store_state w1) (Name s) sid = (StringValue (NextShardIterator out), None)"
      by (auto simp: GetShardIterator_def)
    with o e show ?thesis by (simp add: fetches_append updates_append)
  next
    case False
    with Cons.prems(3) have mem: "sid \<in> ID ` set xs" by auto
    from False poll_shard_local[OF assms b]
    have "fetches sid evs1 = []" "updates (Name s) sid evs1 = []" by auto
    with Cons.IH[OF rr dx mem] e show ?thesis by (simp add: fetches_append updates_append)
  qed
qed

section \<open>Runs of Listen\<close>

lemma run_ticks_Suc_cases:
  assumes "run_ticks (Suc n) s w = (res, evss, w')"
  shows "(\<exists>e evs. res = Some e \<and> evss = [evs] \<and> tick s w = (Some e, evs, w')) \<or>
         (\<exists>evs w1 evss1. tick s w = (None, evs, w1) \<and> run_ticks n s w1 = (res, evss1, w') \<and>
                          evss = evs # evss1)"
  using assms by (auto split: prod.splits option.splits)

lemma run_ticks_Nil: "run_ticks n s w = (res, [], w') \<Longrightarrow> w' = w \<and> res = None"
  by (cases n) (auto split: prod.splits option.splits)

lemma run_ticks_error:
  "run_ticks n s w = (res, evss, w') \<Longrightarrow>
   (res = None \<longrightarrow> no_error (concat evss) \<and> length evss = n) \<and>
   (\<forall>e. res = Some e \<longrightarrow> first_error (concat evss) e)"
proof (induction n arbitrary: w evss)
  case 0
  then show ?case by (simp add: no_error_Nil)
next
  case (Suc n)
  from run_ticks_Suc_cases[OF Suc.prems]
  show ?case
  proof (elim disjE exE conjE)
    fix e evs assume "res = Some e" "evss = [evs]" "tick s w = (Some e, evs, w')"
    with tick_error[of s w "Some e" evs w'] show ?thesis by simp
  next
    fix evs w1 evss1
    assume t: "tick s w = (None, evs, w1)" and r: "run_ticks n s w1 = (res, evss1, w')"
       and e: "evss = evs # evss1"
    from tick_error[OF t] have "no_error evs" by simp
    with Suc.IH[OF r] e show ?thesis by (simp add: no_error_append first_error_append)
  qed
qed

lemma run_ticks_nth:
  "run_ticks n s w = (res, evss, w') \<Longrightarrow> k < length evss \<Longrightarrow>
   \<exists>wk rk wk'. tick s wk = (rk, evss ! k, wk') \<and>
      (Suc k < length evss \<longrightarrow> rk = None) \<and>
      (Suc k = length evss \<longrightarrow> rk = res \<and> wk' = w')"
proof (induction n arbitrary: w evss k)
  case 0
  then show ?case by simp
next
  case (Suc n)
  from run_ticks_Suc_cases[OF Suc.prems(1)]
  show ?case
  proof (elim disjE exE conjE)
    fix e evs assume "res = Some e" "evss = [evs]" "tick s w = (Some e, evs, w')"
    with Suc.prems(2) show ?thesis by auto
  next
    fix evs w1 evss1
    assume t: "tick s w = (None, evs, w1)" and r: "run_ticks n s w1 = (res, evss1, w')"
       and e: "evss = evs # evss1"
    show ?thesis
    proof (cases k)
      case 0
      show ?thesis
      proof (cases evss1)
        case Nil
        with run_ticks_Nil[of n s w1 res w'] r have "w' = w1" "res = None" by simp_all
        with t e Nil 0 show ?thesis by auto
      next
        case (Cons a list)
        with t e 0 show ?thesis by auto
      qed
    next
      case (Suc k')
      with Suc.prems(2) e have "k' < length evss1" by simp
      from Suc.IH[OF r this] Suc e show ?thesis by simp
    qed
  qed
qed

lemma listen_loop_returns:
  "run_ticks n s w = (Some e, evss, w') \<Longrightarrow>
   listen_loop s tr w = Some (Returned (Some e), tr\<lparr>tick_events := tick_events tr @ evss\<rparr>, w')"
proof (induction n arbitrary: w evss tr)
  case 0
  then show ?case by simp
next
  case (Suc n)
  from run_ticks_Suc_cases[OF Suc.prems]
  show ?case
  proof (elim disjE exE conjE)
    fix e' evs assume "Some e = Some e'" "evss = [evs]" "tick s w = (Some e', evs, w')"
    then show ?thesis by (subst listen_loop.simps) simp
  next
    fix evs w1 evss1
    assume t: "tick s w = (None, evs, w1)" and r: "run_ticks n s w1 = (Some e, evss1, w')"
       and e: "evss = evs # evss1"
    from Suc.IH[OF r, of "tr\<lparr>tick_events := tick_events tr @ [evs]\<rparr>"] t e
    show ?thesis by (subst listen_loop.simps) simp
  qed
qed

lemma listen_loop_returned:
  assumes "listen_loop s tr w = Some res"
  shows "\<exists>n e evss. run_ticks n s w = (Some e, evss, snd (snd res)) \<and> fst res = Returned (Some e) \<and>
               fst (snd res) = tr\<lparr>tick_events := tick_events tr @ evss\<rparr>"
proof (rule listen_loop.raw_induct[where P = "\<lambda>s tr w res. \<exists>n e evss.
     run_ticks n s w = (Some e, evss, snd (snd res)) \<and> fst res = Returned (Some e) \<and>
     fst (snd res) = tr\<lparr>tick_events := tick_events tr @ evss\<rparr>", OF _ assms], goal_cases)
  case (1 loop s tr w res)
  obtain r evs w1 where t: "tick s w = (r, evs, w1)" by (cases "tick s w") auto
  show ?case
  proof (cases r)
    case None
    with 1(2) t have "loop s (tr\<lparr>tick_events := tick_events tr @ [evs]\<rparr>) w1 = Some res" by simp
    from 1(1)[OF this] obtain n e evss where
      a: "run_ticks n s w1 = (Some e, evss, snd (snd res))" "fst res = Returned (Some e)"
         "fst (snd res) = tr\<lparr>tick_events := tick_events tr @ [evs] @ evss\<rparr>"
      by auto
    from a(1) t None have "run_ticks (Suc n) s w = (Some e, evs # evss, snd (snd res))" by simp
    with a(2,3) show ?thesis by (intro exI[of _ "Suc n"] exI[of _ e] exI[of _ "evs # evss"]) simp
  next
    case (Some e)
    with 1(2) t have "res = (Returned (Some e), tr\<lparr>tick_events := tick_events tr @ [evs]\<rparr>, w1)" by simp
    moreover from t Some have "run_ticks (Suc 0) s w = (Some e, [evs], w1)" by simp
    ultimately show ?thesis by (intro exI[of _ "Suc 0"] exI[of _ e] exI[of _ "[evs]"]) simp
  qed
qed

lemma Listen_iff_Listen_n:
  "Listen s w = Some (out, tr, w') \<longleftrightarrow> (\<exists>n. Listen_n n s w = (Some out, tr, w'))"
proof (cases "sint (Interval (config s)) \<le> 0")
  case True
  then show ?thesis by (auto simp: Listen_def Listen_n_def)
next
  case False
  obtain r evs w1 where si: "setInitialIterators s w = (r, evs, w1)"
    by (cases "setInitialIterators s w") auto
  show ?thesis
  proof (cases r)
    case (Some e)
    with False si show ?thesis by (auto simp: Listen_def Listen_n_def)
  next
    case None
    let ?tr0 = "\<lparr>seed_events = evs, tick_events = []\<rparr>"
    from False si None have L: "Listen s w = listen_loop s ?tr0 w1" by (simp add: Listen_def)
    show ?thesis
    proof
      assume "Listen s w = Some (out, tr, w')"
      with L have "listen_loop s ?tr0 w1 = Some (out, tr, w')" by simp
      from listen_loop_returned[OF this] obtain n e evss where
        a: "run_ticks n s w1 = (Some e, evss, w')" "out = Returned (Some e)"
           "tr = \<lparr>seed_events = evs, tick_events = evss\<rparr>" by auto
      with False si None have "Listen_n n s w = (Some out, tr, w')" by (simp add: Listen_n_def)
      then show "\<exists>n. Listen_n n s w = (Some out, tr, w')" ..
    next
      assume "\<exists>n. Listen_n n s w = (Some out, tr, w')"
      then obtain n where n: "Listen_n n s w = (Some out, tr, w')" ..
      obtain r2 evss w2 where rt: "run_ticks n s w1 = (r2, evss, w2)"
        by (cases "run_ticks n s w1") auto
      with n False si None obtain e where
        a: "r2 = Some e" "out = Returned (Some e)" "tr = \<lparr>seed_events = evs, tick_events = evss\<rparr>" "w2 = w'"
        by (auto simp: Listen_n_def split: option.splits)
      from listen_loop_returns[of n s w1 e evss w' ?tr0] rt a L
      show "Listen s w = Some (out, tr, w')" by simp
    qed
  qed
qed

lemma run_ticks_hd:
  "run_ticks n s w = (res, evs # evss, w') \<Longrightarrow> \<exists>r2 w2. tick s w = (r2, evs, w2)"
  by (cases n) (auto split: prod.splits option.splits)

lemma run_ticks_consecutive:
  "run_ticks n s w = (res, evss, w') \<Longrightarrow> k < length evss \<Longrightarrow> Suc k < length evss \<or> res = None \<Longrightarrow>
   \<exists>wk wk1. tick s wk = (None, evss ! k, wk1) \<and>
      (Suc k < length evss \<longrightarrow> (\<exists>r2 wk2. tick s wk1 = (r2, evss ! Suc k, wk2))) \<and>
      (Suc k = length evss \<longrightarrow> wk1 = w')"
proof (induction n arbitrary: w evss k)
  case 0
  then show ?case by simp
next
  case (Suc n)
  from run_ticks_Suc_cases[OF Suc.prems(1)]
  show ?case
  proof (elim disjE exE conjE)
    fix e evs assume "res = Some e" "evss = [evs]" "tick s w = (Some e, evs, w')"
    with Suc.prems(2,3) show ?thesis by auto
  next
    fix evs w1 evss1
    assume t: "tick s w = (None, evs, w1)" and r: "run_ticks n s w1 = (res, evss1, w')"
       and e: "evss = evs # evss1"
    show ?thesis
    proof (cases k)
      case 0
      show ?thesis
      proof (cases evss1)
        case Nil
        with run_ticks_Nil[of n s w1 res w'] r have "w' = w1" by simp
        with t e Nil 0 show ?thesis by auto
      next
        case (Cons a list)
        with run_ticks_hd[of n s w1 res a list w'] r
        obtain r2 w2 where "tick s w1 = (r2, a, w2)" by auto
        with t e 0 Cons show ?thesis by auto
      qed
    next
      case (Suc k')
      with Suc.prems(2,3) e have "k' < length evss1" "Suc k' < length evss1 \<or> res = None" by auto
      from Suc.IH[OF r this] Suc e show ?thesis by simp
    qed
  qed
qed

lemma Listen_n_ticks:
  assumes "Listen_n n s w = (out, tr, w')" and "tick_events tr \<noteq> []"
  shows "\<exists>w1 res. setInitialIterators s w = (None, seed_events tr, w1) \<and>
           run_ticks n s w1 = (res, tick_events tr, w') \<and>
           out = (case res of None \<Rightarrow> None | Some e \<Rightarrow> Some (Returned (Some e)))"
  using assms
  by (auto simp: Listen_n_def split: if_splits prod.splits option.splits)

lemma Listen_n_error:
  assumes "Listen_n n s w = (out, tr, w')"
  shows "(out = None \<longrightarrow> no_error (all_events tr) \<and> length (tick_events tr) = n) \<and>
         (\<forall>r. out = Some (Returned r) \<longrightarrow> (\<exists>e. r = Some e \<and> first_error (all_events tr) e))"
proof (cases "sint (Interval (config s)) \<le> 0")
  case True
  with assms show ?thesis by (auto simp: Listen_n_def)
next
  case False
  obtain r evs w1 where si: "setInitialIterators s w = (r, evs, w1)"
    by (cases "setInitialIterators s w") auto
  show ?thesis
  proof (cases r)
    case (Some e)
    with assms False si setInitialIterators_error[OF si] show ?thesis
      by (auto simp: Listen_n_def all_events_def)
  next
    case None
    obtain r2 evss w2 where rt: "run_ticks n s w1 = (r2, evss, w2)"
      by (cases "run_ticks n s w1") auto
    from None setInitialIterators_error[OF si] have ne: "no_error evs" by simp
    from assms False si None rt have
      o: "out = (case r2 of None \<Rightarrow> None | Some e \<Rightarrow> Some (Returned (Some e)))"
      and tr: "tr = \<lparr>seed_events = evs, tick_events = evss\<rparr>"
      by (auto simp: Listen_n_def)
    from run_ticks_error[OF rt] ne o tr show ?thesis
      by (cases r2) (auto simp: all_events_def no_error_append first_error_append)
  qed
qed

text \<open>The runs of the example streams.\<close>

lemmas run_defs =
  Listen_n_def setInitialIterators_def tick_def seed_shard_def poll_shard_def Let_def
  orders_stream_def orders_shards_def orders_config_def scripted_def orders_iterator_def
  orders_records_def IteratorTypeLatest_def LocalStore_Store_def UpdateShardIterator_def
  GetShardIterator_def key_of_def StringValue_def world0_def NewLocalStore_def numeral_2_eq_2

lemma orders_two_ticks:
  "fst (Listen_n 2 orders_stream world0) = None"
  "fst (snd (Listen_n 2 orders_stream world0)) =
     \<lparr>seed_events = seed_trace, tick_events = [orders_tick1, orders_tick2]\<rparr>"
  "GetShardIterator (store_state (snd (snd (Listen_n 2 orders_stream world0)))) ''orders'' ''shard-0'' =
     (''it-0b+'', None)"
  by (simp_all add: run_defs seed_trace_def orders_tick1_def orders_tick2_def)

lemma expiring_two_ticks:
  "fst (Listen_n 2 expiring_stream world0) = Some (Returned (Some (Error ''ExpiredIteratorException'')))"
  "fst (snd (Listen_n 2 expiring_stream world0)) =
     \<lparr>seed_events = seed_trace, tick_events = [orders_tick1, expiring_tick2]\<rparr>"
  "GetShardIterator (store_state (snd (snd (Listen_n 2 expiring_stream world0)))) ''orders'' ''shard-0'' =
     (''it-0b'', None)"
  by (simp_all add: run_defs expiring_stream_def expiring_records_def seed_trace_def orders_tick1_def
        expiring_tick2_def)

lemma range_shards_never_fails:
  assumes "\<And>x w. fst (body x w) = None"
  shows "fst (range_shards body xs w) = None"
proof (induction xs arbitrary: w)
  case Nil
  then show ?case by simp
next
  case (Cons x xs)
  obtain evs w1 where b: "body x w = (None, evs, w1)"
    using assms[of x w] by (cases "body x w") auto
  with Cons.IH[of w1] show ?case by (cases "range_shards body xs w1") auto
qed

lemma run_ticks_never_fails:
  assumes "\<And>w. fst (tick s w) = None"
  shows "fst (run_ticks n s w) = None"
proof (induction n arbitrary: w)
  case 0
  then show ?case by simp
next
  case (Suc n)
  obtain evs w1 where b: "tick s w = (None, evs, w1)"
    using assms[of w] by (cases "tick s w") auto
  with Suc.IH[of w1] show ?case by (cases "run_ticks n s w1") auto
qed

lemma Listen_n_never_fails:
  assumes "store s = LocalStore_Store"
      and "\<And>k inp. \<exists>out. fst (Kinesis_GetShardIterator (svc s) k inp) = Inr out"
      and "\<And>k inp. \<exists>out. fst (GetRecords (svc s) k inp) = Inr out"
  shows "no_error (all_events (fst (snd (Listen_n n s w))))"
proof -
  have seed: "fst (seed_shard s x v) = None" for x v
    using assms(1) assms(2)[of "svc_state v"
      "\<lparr>gsi_ShardId = ID x, gsi_ShardIteratorType = IteratorType (config s), gsi_StreamName = Name s\<rparr>"]
    by (auto simp: seed_shard_def Let_def LocalStore_Store_def UpdateShardIterator_def
             split: prod.splits sum.splits)
  have poll: "fst (poll_shard s x v) = None" for x v
    using assms(1) assms(3)[of "svc_state v"
      "\<lparr>gr_Limit = Limit (config s),
        gr_ShardIterator = fst (GetShardIterator (store_state v) (Name s) (ID x))\<rparr>"]
    by (auto simp: poll_shard_def Let_def LocalStore_Store_def UpdateShardIterator_def
          GetShardIterator_def split: prod.splits sum.splits)
  have t: "fst (tick s v) = None" for v
    unfolding tick_def by (rule range_shards_never_fails[OF poll])
  have si: "fst (setInitialIterators s w) = None"
    unfolding setInitialIterators_def by (rule range_shards_never_fails[OF seed])
  obtain out tr w' where L: "Listen_n n s w = (out, tr, w')" by (cases "Listen_n n s w") auto
  show ?thesis
  proof (cases "sint (Interval (config s)) \<le> 0")
    case True
    then show ?thesis by (simp add: Listen_n_def all_events_def no_error_Nil)
  next
    case False
    obtain evs w1 where s1: "setInitialIterators s w = (None, evs, w1)"
      using si by (cases "setInitialIterators s w") auto
    obtain evss w2 where r1: "run_ticks n s w1 = (None, evss, w2)"
      using run_ticks_never_fails[of s n w1, OF t] by (cases "run_ticks n s w1") auto
    from False s1 r1 L have "out = None" by (simp add: Listen_n_def)
    with Listen_n_error[OF L] L show ?thesis by simp
  qed
qed

text \<open>
  C10. \<^verbatim>\<open>Listen\<close> never returns nil: when it returns, it returns an error, and that
  error is the one of the first call that failed among the calls of the seeding, the
  reads of the store, the fetches and the writes to the store (it is the error of the
  last event of the run, and no event before it has an error). In a run in which no
  such call ever fails, \<^verbatim>\<open>Listen\<close> does not return, and with a positive interval it
  runs forever.
\<close>

theorem Listen_returns_first_error:
  "(\<forall>r tr w'. Listen s w = Some (Returned r, tr, w') \<longrightarrow>
      (\<exists>e. r = Some e \<and> first_error (all_events tr) e)) \<and>
   ((\<forall>n. no_error (all_events (fst (snd (Listen_n n s w))))) \<longrightarrow>
      (\<forall>r tr w'. Listen s w \<noteq> Some (Returned r, tr, w')) \<and>
      (0 < sint (Interval (config s)) \<longrightarrow> Listen s w = None))"
proof (intro conjI allI impI)
  fix r tr w' assume "Listen s w = Some (Returned r, tr, w')"
  then obtain n where "Listen_n n s w = (Some (Returned r), tr, w')"
    by (auto simp: Listen_iff_Listen_n)
  from Listen_n_error[OF this] show "\<exists>e. r = Some e \<and> first_error (all_events tr) e" by simp
next
  fix r tr w'
  assume ne: "\<forall>n. no_error (all_events (fst (snd (Listen_n n s w))))"
  show "Listen s w \<noteq> Some (Returned r, tr, w')"
  proof
    assume "Listen s w = Some (Returned r, tr, w')"
    then obtain n where n: "Listen_n n s w = (Some (Returned r), tr, w')"
      by (auto simp: Listen_iff_Listen_n)
    from Listen_n_error[OF n] have "\<exists>e. first_error (all_events tr) e" by auto
    moreover from ne n have "no_error (all_events tr)" by (metis fst_conv snd_conv)
    ultimately show False by (auto dest: first_error_not_no_error)
  qed
next
  assume ne: "\<forall>n. no_error (all_events (fst (snd (Listen_n n s w))))"
     and pos: "0 < sint (Interval (config s))"
  show "Listen s w = None"
  proof (cases "Listen s w")
    case None
    then show ?thesis .
  next
    case (Some res)
    obtain out tr w' where res: "res = (out, tr, w')" by (cases res) auto
    with Some have "Listen s w = Some (out, tr, w')" by simp
    from iffD1[OF Listen_iff_Listen_n this] obtain n where n: "Listen_n n s w = (Some out, tr, w')" ..
    show ?thesis
    proof (cases out)
      case Panicked
      with n pos show ?thesis by (auto simp: Listen_n_def split: if_splits prod.splits option.splits)
    next
      case (Returned r)
      with Listen_n_error[OF n] have "\<exists>e. first_error (all_events tr) e" by auto
      moreover from ne n have "no_error (all_events tr)" by (metis fst_conv snd_conv)
      ultimately show ?thesis by (auto dest: first_error_not_no_error)
    qed
  qed
qed

theorem Listen_returns_first_error_witness:
  "Listen expiring_stream world0 =
     Some (Returned (Some (Error ''ExpiredIteratorException'')),
           \<lparr>seed_events = seed_trace, tick_events = [orders_tick1, expiring_tick2]\<rparr>,
           snd (snd (Listen_n 2 expiring_stream world0))) \<and>
   first_error (seed_trace @ orders_tick1 @ expiring_tick2) (Error ''ExpiredIteratorException'') \<and>
   (\<forall>n. no_error (all_events (fst (snd (Listen_n n orders_stream world0))))) \<and>
   0 < sint (Interval (config orders_stream)) \<and>
   Listen orders_stream world0 = None"
proof -
  let ?L = "Listen_n 2 expiring_stream world0"
  let ?e = "Error ''ExpiredIteratorException''"
  let ?tr = "\<lparr>seed_events = seed_trace, tick_events = [orders_tick1, expiring_tick2]\<rparr>"
  have "?L = (Some (Returned (Some ?e)), ?tr, snd (snd ?L))"
    using expiring_two_ticks(1,2) by (simp add: prod_eq_iff)
  then have a: "Listen expiring_stream world0 = Some (Returned (Some ?e), ?tr, snd (snd ?L))"
    using Listen_iff_Listen_n[of expiring_stream world0 "Returned (Some ?e)" ?tr "snd (snd ?L)"] by blast
  have b: "\<forall>n. no_error (all_events (fst (snd (Listen_n n orders_stream world0))))"
  proof
    fix n show "no_error (all_events (fst (snd (Listen_n n orders_stream world0))))"
      by (rule Listen_n_never_fails)
         (simp_all add: orders_stream_def scripted_def orders_iterator_def orders_records_def)
  qed
  have c: "0 < sint (Interval (config orders_stream))"
    by (simp add: orders_stream_def orders_config_def)
  from Listen_returns_first_error[of expiring_stream world0] a
  have d: "first_error (seed_trace @ orders_tick1 @ expiring_tick2) ?e"
    by (auto simp: all_events_def)
  from Listen_returns_first_error[of orders_stream world0] b c
  have e: "Listen orders_stream world0 = None" by blast
  from a b c d e show ?thesis by simp
qed

section \<open>Handing the position from tick to tick\<close>

text \<open>
  C1. On the local store, with no writer but the loop, for a shard of a stream with
  distinct shard IDs: a tick \<open>k\<close> that ends without error makes one fetch for the
  shard, writes the next token of its response to the store (whatever the records of
  the response, none included) and nothing else for that shard; every fetch for the
  shard on tick \<open>k + 1\<close> is made with that token; and when tick \<open>k\<close> is the last tick
  so far, the store holds that token for the shard. The token is
  \<^verbatim>\<open>aws.StringValue\<close> of the response's \<^verbatim>\<open>NextShardIterator\<close>.
\<close>

theorem position_handoff:
  assumes "store s = LocalStore_Store"
      and "distinct (map ID (Shards s))"
      and "sid \<in> ID ` set (Shards s)"
      and "Listen_n n s w = (out, tr, w')"
      and "k < length (tick_events tr)"
      and "Suc k < length (tick_events tr) \<or> out = None"
  shows "\<exists>inp out_k.
           fetches sid (tick_events tr ! k) = [(inp, Inr out_k)] \<and>
           updates (Name s) sid (tick_events tr ! k) = [(StringValue (NextShardIterator out_k), None)] \<and>
           (Suc k < length (tick_events tr) \<longrightarrow>
              (\<forall>(inp', r') \<in> set (fetches sid (tick_events tr ! Suc k)).
                 gr_ShardIterator inp' = StringValue (NextShardIterator out_k))) \<and>
           (Suc k = length (tick_events tr) \<longrightarrow>
              GetShardIterator (store_state w') (Name s) sid =
                (StringValue (NextShardIterator out_k), None))"
proof -
  from assms(5) have "tick_events tr \<noteq> []" by auto
  from Listen_n_ticks[OF assms(4) this] obtain w1 res where
    rt: "run_ticks n s w1 = (res, tick_events tr, w')" and
    o: "out = (case res of None \<Rightarrow> None | Some e \<Rightarrow> Some (Returned (Some e)))"
    by auto
  from assms(6) o have "Suc k < length (tick_events tr) \<or> res = None"
    by (auto split: option.splits)
  from run_ticks_consecutive[OF rt assms(5) this] obtain wk wk1 where
    t1: "tick s wk = (None, tick_events tr ! k, wk1)" and
    t2: "Suc k < length (tick_events tr) \<longrightarrow> (\<exists>r2 wk2. tick s wk1 = (r2, tick_events tr ! Suc k, wk2))" and
    t3: "Suc k = length (tick_events tr) \<longrightarrow> wk1 = w'"
    by auto
  from t1 have p1: "range_shards (poll_shard s) (Shards s) wk = (None, tick_events tr ! k, wk1)"
    by (simp add: tick_def)
  from poll_shards_local_ok[OF assms(1) p1 assms(2,3)] obtain inp out_k where
    a: "fetches sid (tick_events tr ! k) = [(inp, Inr out_k)]"
       "updates (Name s) sid (tick_events tr ! k) = [(StringValue (NextShardIterator out_k), None)]"
       "GetShardIterator (store_state wk1) (Name s) sid = (StringValue (NextShardIterator out_k), None)"
    by auto
  have b: "Suc k < length (tick_events tr) \<longrightarrow>
              (\<forall>(inp', r') \<in> set (fetches sid (tick_events tr ! Suc k)).
                 gr_ShardIterator inp' = StringValue (NextShardIterator out_k))"
  proof (intro impI ballI)
    fix p assume "Suc k < length (tick_events tr)" and mem: "p \<in> set (fetches sid (tick_events tr ! Suc k))"
    with t2 obtain r2 wk2 where "tick s wk1 = (r2, tick_events tr ! Suc k, wk2)" by auto
    then have p2: "range_shards (poll_shard s) (Shards s) wk1 = (r2, tick_events tr ! Suc k, wk2)"
      by (simp add: tick_def)
    from mem have "(fst p, snd p) \<in> set (fetches sid (tick_events tr ! Suc k))" by simp
    from poll_shards_local_iterator[OF assms(1) p2 assms(2) this] a(3)
    show "case p of (inp', r') \<Rightarrow> gr_ShardIterator inp' = StringValue (NextShardIterator out_k)"
      by (simp add: case_prod_beta)
  qed
  from a b t3 show ?thesis by auto
qed

theorem position_handoff_witness:
  "store orders_stream = LocalStore_Store \<and>
   distinct (map ID (Shards orders_stream)) \<and>
   ''shard-0'' \<in> ID ` set (Shards orders_stream) \<and>
   fst (Listen_n 2 orders_stream world0) = None \<and>
   tick_events (fst (snd (Listen_n 2 orders_stream world0))) = [orders_tick1, orders_tick2] \<and>
   map (\<lambda>(inp, r). (gr_ShardIterator inp, map_sum id NextShardIterator r)) (fetches ''shard-0'' orders_tick1) =
     [(''it-0a'', Inr (Some ''it-0b''))] \<and>
   map (\<lambda>(inp, r). (gr_ShardIterator inp, map_sum id NextShardIterator r)) (fetches ''shard-0'' orders_tick2) =
     [(''it-0b'', Inr (Some ''it-0b+''))] \<and>
   GetShardIterator (store_state (snd (snd (Listen_n 2 orders_stream world0)))) ''orders'' ''shard-0'' =
     (''it-0b+'', None)"
proof -
  let ?L = "Listen_n 2 orders_stream world0"
  let ?tr = "\<lparr>seed_events = seed_trace, tick_events = [orders_tick1, orders_tick2]\<rparr>"
  have h1: "store orders_stream = LocalStore_Store" by (simp add: orders_stream_def)
  have h2: "distinct (map ID (Shards orders_stream))" by (simp add: orders_stream_def orders_shards_def)
  have h3: "''shard-0'' \<in> ID ` set (Shards orders_stream)" by (simp add: orders_stream_def orders_shards_def)
  have h4: "?L = (None, ?tr, snd (snd ?L))" using orders_two_ticks(1,2) by (simp add: prod_eq_iff)
  have k0: "0 < length (tick_events ?tr)" "Suc 0 < length (tick_events ?tr) \<or> (None :: error option outcome option) = None"
    by simp_all
  have k1: "1 < length (tick_events ?tr)" "Suc 1 < length (tick_events ?tr) \<or> (None :: error option outcome option) = None"
    by simp_all
  have f1: "fetches ''shard-0'' orders_tick1 =
     [(\<lparr>gr_Limit = 100, gr_ShardIterator = ''it-0a''\<rparr>,
       Inr \<lparr>Records = [Record (Some ''1'') ''a'', Record (Some ''2'') ''b'', Record (Some ''3'') ''c''],
              NextShardIterator = Some ''it-0b''\<rparr>)]"
    by (simp add: orders_tick1_def)
  have f2: "fetches ''shard-0'' orders_tick2 =
     [(\<lparr>gr_Limit = 100, gr_ShardIterator = ''it-0b''\<rparr>, Inr \<lparr>Records = [], NextShardIterator = Some ''it-0b+''\<rparr>)]"
    by (simp add: orders_tick2_def)
  from position_handoff[OF h1 h2 h3 h4 k0]
  have a: "map (\<lambda>(inp, r). (gr_ShardIterator inp, map_sum id NextShardIterator r)) (fetches ''shard-0'' orders_tick1) =
             [(''it-0a'', Inr (Some ''it-0b''))] \<and>
           map (\<lambda>(inp, r). (gr_ShardIterator inp, map_sum id NextShardIterator r)) (fetches ''shard-0'' orders_tick2) =
             [(''it-0b'', Inr (Some ''it-0b+''))]"
    by (auto simp: f1 f2 StringValue_def)
  from position_handoff[OF h1 h2 h3 h4 k1]
  have b: "GetShardIterator (store_state (snd (snd ?L))) ''orders'' ''shard-0'' = (''it-0b+'', None)"
    by (auto simp: f2 StringValue_def orders_stream_def)
  from h1 h2 h3 orders_two_ticks(1,2) a b show ?thesis by simp
qed

section \<open>A fetch that fails\<close>

lemma updates_empty_if_not_about:
  assumes "\<And>ev. ev \<in> set evs \<Longrightarrow> \<not> about sid ev"
  shows "updates stream sid evs = []"
proof (rule ccontr)
  assume "updates stream sid evs \<noteq> []"
  then obtain p where "p \<in> set (updates stream sid evs)" by (cases "updates stream sid evs") auto
  then have "StoreUpdateEv stream sid (fst p) (snd p) \<in> set evs"
    using updates_mem[of "fst p" "snd p" stream sid evs] by simp
  from assms[OF this] show False by simp
qed

lemma poll_shards_failed_fetch:
  "range_shards (poll_shard s) xs w = (res, evs, w') \<Longrightarrow> distinct (map ID xs) \<Longrightarrow>
   GetRecordsEv sid inp (Inl e) \<in> set evs \<Longrightarrow>
   updates stream sid evs = [] \<and>
   (\<exists>pre x post. xs = pre @ x # post \<and> ID x = sid \<and>
      (\<forall>y \<in> set post. \<forall>ev \<in> set evs. \<not> about (ID y) ev))"
proof (induction xs arbitrary: w evs)
  case Nil
  then show ?case by simp
next
  case (Cons x xs)
  from Cons.prems(2) have dx: "distinct (map ID xs)" and nx: "ID x \<notin> ID ` set xs" by auto
  from range_shards_Cons_cases[OF Cons.prems(1)]
  show ?case
  proof (elim disjE exE conjE)
    fix e' assume "res = Some e'" and b: "poll_shard s x w = (Some e', evs, w')"
    from poll_shard_about[OF b Cons.prems(3)] have sx: "sid = ID x" by simp
    from poll_shard_failed_fetch[OF b Cons.prems(3)] have u: "updates stream sid evs = []" by simp
    have "\<forall>y \<in> set xs. \<forall>ev \<in> set evs. \<not> about (ID y) ev"
    proof (intro ballI notI)
      fix y ev assume "y \<in> set xs" "ev \<in> set evs" "about (ID y) ev"
      from poll_shard_about[OF b this(2,3)] \<open>y \<in> set xs\<close> nx show False by (metis imageI)
    qed
    with sx u show ?thesis by (intro conjI exI[of _ "[]"] exI[of _ x] exI[of _ xs]) simp_all
  next
    fix evs1 w1 evs2
    assume b: "poll_shard s x w = (None, evs1, w1)"
       and r: "range_shards (poll_shard s) xs w1 = (res, evs2, w')"
       and ev: "evs = evs1 @ evs2"
    from poll_shard_error[OF b] have "no_error evs1" by simp
    then have "GetRecordsEv sid inp (Inl e) \<notin> set evs1"
      by (auto simp: no_error_def list_all_iff)
    with Cons.prems(3) ev have mem: "GetRecordsEv sid inp (Inl e) \<in> set evs2" by simp
    from Cons.IH[OF r dx mem] obtain pre x' post where
      u2: "updates stream sid evs2 = []" and xs: "xs = pre @ x' # post" and sx: "ID x' = sid" and
      p2: "\<forall>y \<in> set post. \<forall>ev \<in> set evs2. \<not> about (ID y) ev"
      by auto
    from xs sx nx have ne: "sid \<noteq> ID x" by auto
    have u1: "updates stream sid evs1 = []"
    proof (rule updates_empty_if_not_about)
      fix ev assume "ev \<in> set evs1"
      show "\<not> about sid ev"
      proof
        assume "about sid ev"
        from poll_shard_about[OF b \<open>ev \<in> set evs1\<close> this] ne show False by simp
      qed
    qed
    have p1: "\<forall>y \<in> set post. \<forall>ev \<in> set evs1. \<not> about (ID y) ev"
    proof (intro ballI notI)
      fix y ev assume "y \<in> set post" "ev \<in> set evs1" "about (ID y) ev"
      from \<open>y \<in> set post\<close> xs have "y \<in> set xs" by simp
      with poll_shard_about[OF b \<open>ev \<in> set evs1\<close> \<open>about (ID y) ev\<close>] nx show False by (metis imageI)
    qed
    from u1 u2 ev have "updates stream sid evs = []" by (simp add: updates_append)
    moreover from p1 p2 ev have "\<forall>y \<in> set post. \<forall>ev \<in> set evs. \<not> about (ID y) ev" by auto
    moreover from xs have "x # xs = (x # pre) @ x' # post" by simp
    ultimately show ?thesis using sx by blast
  qed
qed

lemma poll_shards_local_frame:
  assumes "store s = LocalStore_Store"
  shows "range_shards (poll_shard s) xs w = (res, evs, w') \<Longrightarrow> updates (Name s) sid evs = [] \<Longrightarrow>
         GetShardIterator (store_state w') (Name s) sid = GetShardIterator (store_state w) (Name s) sid"
proof (induction xs arbitrary: w evs)
  case Nil
  then show ?case by simp
next
  case (Cons x xs)
  from range_shards_Cons_cases[OF Cons.prems(1)]
  show ?case
  proof (elim disjE exE conjE)
    fix e assume "res = Some e" and b: "poll_shard s x w = (Some e, evs, w')"
    from poll_shard_local[OF assms b] show ?thesis by auto
  next
    fix evs1 w1 evs2
    assume b: "poll_shard s x w = (None, evs1, w1)"
       and r: "range_shards (poll_shard s) xs w1 = (res, evs2, w')"
       and ev: "evs = evs1 @ evs2"
    from Cons.prems(2) ev have u1: "updates (Name s) sid evs1 = []" and u2: "updates (Name s) sid evs2 = []"
      by (simp_all add: updates_append)
    from poll_shard_local[OF assms b] u1
    have "GetShardIterator (store_state w1) (Name s) sid = GetShardIterator (store_state w) (Name s) sid"
      by (auto simp: GetShardIterator_def key_of_same_stream split: if_splits)
    with Cons.IH[OF r u2] show ?thesis by simp
  qed
qed

text \<open>
  C3. When the fetch for the shard \<open>sid\<close> fails with \<open>e\<close> during tick \<open>k\<close> of a run on
  a stream with distinct shard IDs: \<^verbatim>\<open>Listen\<close> returns \<open>e\<close>; tick \<open>k\<close> is the last tick
  and the failed fetch its last event; the tick writes no position for \<open>sid\<close>; no shard
  after \<open>sid\<close> in the order of the directory is read, fetched or written in that tick;
  and on the local store the position of \<open>sid\<close> is the one the tick started with.
\<close>

theorem fetch_failure_fail_fast:
  assumes "distinct (map ID (Shards s))"
      and "Listen_n n s w = (out, tr, w')"
      and "k < length (tick_events tr)"
      and "GetRecordsEv sid inp (Inl e) \<in> set (tick_events tr ! k)"
  shows "out = Some (Returned (Some e)) \<and>
         Listen s w = Some (Returned (Some e), tr, w') \<and>
         Suc k = length (tick_events tr) \<and>
         last (tick_events tr ! k) = GetRecordsEv sid inp (Inl e) \<and>
         updates (Name s) sid (tick_events tr ! k) = [] \<and>
         (\<exists>pre x post. Shards s = pre @ x # post \<and> ID x = sid \<and>
            (\<forall>y \<in> set post. \<forall>ev \<in> set (tick_events tr ! k). \<not> about (ID y) ev)) \<and>
         (\<exists>wk. tick s wk = (Some e, tick_events tr ! k, w') \<and>
            (store s = LocalStore_Store \<longrightarrow>
               GetShardIterator (store_state w') (Name s) sid =
               GetShardIterator (store_state wk) (Name s) sid))"
proof -
  let ?evs = "tick_events tr ! k"
  from assms(3) have "tick_events tr \<noteq> []" by auto
  from Listen_n_ticks[OF assms(2) this] obtain w1 res where
    rt: "run_ticks n s w1 = (res, tick_events tr, w')" and
    o: "out = (case res of None \<Rightarrow> None | Some e \<Rightarrow> Some (Returned (Some e)))"
    by auto
  from run_ticks_nth[OF rt assms(3)] obtain wk rk wk' where
    t: "tick s wk = (rk, ?evs, wk')" and
    mid: "Suc k < length (tick_events tr) \<longrightarrow> rk = None" and
    fin: "Suc k = length (tick_events tr) \<longrightarrow> rk = res \<and> wk' = w'"
    by auto
  have ee: "ev_error (GetRecordsEv sid inp (Inl e)) = Some e" by simp
  have rk: "rk = Some e" and la: "last ?evs = GetRecordsEv sid inp (Inl e)"
  proof -
    show "rk = Some e"
    proof (cases rk)
      case None
      with tick_error[OF t] have "no_error ?evs" by simp
      with assms(4) ee show ?thesis by (auto simp: no_error_def list_all_iff)
    next
      case (Some e')
      with tick_error[OF t] have "first_error ?evs e'" by simp
      from first_error_unique[OF this assms(4) ee] Some show ?thesis by simp
    qed
    with tick_error[OF t] have "first_error ?evs e" by simp
    from first_error_unique[OF this assms(4) ee] show "last ?evs = GetRecordsEv sid inp (Inl e)" by simp
  qed
  from rk mid assms(3) have len: "Suc k = length (tick_events tr)" by (cases "Suc k < length (tick_events tr)") auto
  with fin rk have res: "res = Some e" and wk': "wk' = w'" by auto
  from res o have out: "out = Some (Returned (Some e))" by simp
  with assms(2) have L: "Listen s w = Some (Returned (Some e), tr, w')"
    using Listen_iff_Listen_n[of s w "Returned (Some e)" tr w'] by auto
  from t have p: "range_shards (poll_shard s) (Shards s) wk = (rk, ?evs, wk')" by (simp add: tick_def)
  from poll_shards_failed_fetch[OF p assms(1,4), of "Name s"]
  have u: "updates (Name s) sid ?evs = []" and
       sh: "\<exists>pre x post. Shards s = pre @ x # post \<and> ID x = sid \<and>
              (\<forall>y \<in> set post. \<forall>ev \<in> set ?evs. \<not> about (ID y) ev)"
    by simp_all
  have fr: "store s = LocalStore_Store \<longrightarrow>
            GetShardIterator (store_state w') (Name s) sid = GetShardIterator (store_state wk) (Name s) sid"
    using poll_shards_local_frame[OF _ p u] wk' by simp
  from t rk wk' fr have "\<exists>wk. tick s wk = (Some e, ?evs, w') \<and>
            (store s = LocalStore_Store \<longrightarrow>
               GetShardIterator (store_state w') (Name s) sid =
               GetShardIterator (store_state wk) (Name s) sid)" by auto
  with out L len la u sh show ?thesis by simp
qed

theorem fetch_failure_fail_fast_witness:
  "distinct (map ID (Shards expiring_stream)) \<and>
   store expiring_stream = LocalStore_Store \<and>
   fst (Listen_n 2 expiring_stream world0) = Some (Returned (Some (Error ''ExpiredIteratorException''))) \<and>
   GetRecordsEv ''shard-0'' \<lparr>gr_Limit = 100, gr_ShardIterator = ''it-0b''\<rparr>
      (Inl (Error ''ExpiredIteratorException'')) \<in> set expiring_tick2 \<and>
   Listen expiring_stream world0 =
     Some (Returned (Some (Error ''ExpiredIteratorException'')),
           \<lparr>seed_events = seed_trace, tick_events = [orders_tick1, expiring_tick2]\<rparr>,
           snd (snd (Listen_n 2 expiring_stream world0))) \<and>
   updates ''orders'' ''shard-0'' expiring_tick2 = [] \<and>
   GetShardIterator (store_state (snd (snd (Listen_n 2 expiring_stream world0)))) ''orders'' ''shard-0'' =
     (''it-0b'', None)"
proof -
  let ?L = "Listen_n 2 expiring_stream world0"
  let ?e = "Error ''ExpiredIteratorException''"
  let ?tr = "\<lparr>seed_events = seed_trace, tick_events = [orders_tick1, expiring_tick2]\<rparr>"
  let ?ev = "GetRecordsEv ''shard-0'' \<lparr>gr_Limit = 100, gr_ShardIterator = ''it-0b''\<rparr> (Inl ?e)"
  have h1: "distinct (map ID (Shards expiring_stream))"
    by (simp add: expiring_stream_def orders_stream_def orders_shards_def)
  have h2: "?L = (Some (Returned (Some ?e)), ?tr, snd (snd ?L))"
    using expiring_two_ticks(1,2) by (simp add: prod_eq_iff)
  have h3: "1 < length (tick_events ?tr)" by simp
  have m: "?ev \<in> set expiring_tick2" by (simp add: expiring_tick2_def)
  then have h4: "?ev \<in> set (tick_events ?tr ! 1)" by simp
  from fetch_failure_fail_fast[OF h1 h2 h3 h4]
  have "Listen expiring_stream world0 = Some (Returned (Some ?e), ?tr, snd (snd ?L)) \<and>
        updates ''orders'' ''shard-0'' expiring_tick2 = []"
    by (simp add: expiring_stream_def orders_stream_def)
  moreover have "store expiring_stream = LocalStore_Store"
    by (simp add: expiring_stream_def orders_stream_def)
  ultimately show ?thesis using h1 m expiring_two_ticks by simp
qed

section \<open>Fetches and empty positions\<close>








end
